theory Spec2Isabelle
  imports Complex_Main
begin

section \<open>Python values\<close>

text \<open>
  The script works on what \<^verbatim>\<open>response.json()\<close> returns: Python objects built from
  \<^verbatim>\<open>None\<close>, booleans, integers, floats, strings, lists and dicts with string keys.
  \<open>PNone\<close> is Python's \<^verbatim>\<open>None\<close>, which is both JSON's \<^verbatim>\<open>null\<close> and what
  \<^verbatim>\<open>dict.get\<close> returns for a missing key. \<open>PFloat\<close> carries the value of a finite
  float. \<open>PDict kvs\<close> is the dict whose items are \<open>kvs\<close> in insertion order; the keys
  of a Python dict are distinct, and a lookup in a list that repeats a key takes the
  first entry. Strings are lists of characters with code points below 256.
\<close>

datatype pyval =
    PNone
  | PBool bool
  | PInt int
  | PFloat rat
  | PStr string
  | PList "pyval list"
  | PDict "(string \<times> pyval) list"

text \<open>The exceptions the script can end with, and \<^verbatim>\<open>sys.exit(1)\<close>.\<close>

datatype py_error =
    AttributeError
  | TypeError
  | ValueError
  | FileNotFoundError
  | SystemExit

text \<open>Truth value testing, as \<^verbatim>\<open>if x\<close>, \<^verbatim>\<open>not x\<close> and \<^verbatim>\<open>x or y\<close> use it.\<close>

fun py_truthy :: "pyval \<Rightarrow> bool" where
  "py_truthy PNone = False"
| "py_truthy (PBool b) = b"
| "py_truthy (PInt n) = (n \<noteq> 0)"
| "py_truthy (PFloat r) = (r \<noteq> 0)"
| "py_truthy (PStr s) = (s \<noteq> [])"
| "py_truthy (PList xs) = (xs \<noteq> [])"
| "py_truthy (PDict kvs) = (kvs \<noteq> [])"

text \<open>\<^verbatim>\<open>a or b\<close>: the first operand when it is true, the second otherwise.\<close>

definition py_or :: "pyval \<Rightarrow> pyval \<Rightarrow> pyval" where
  "py_or a b = (if py_truthy a then a else b)"

text \<open>
  \<^verbatim>\<open>d.get(k)\<close>: only a dict has the method; every other value raises
  \<^verbatim>\<open>AttributeError\<close>.
\<close>

fun py_get :: "pyval \<Rightarrow> string \<Rightarrow> py_error + pyval" where
  "py_get (PDict kvs) k = Inr (case map_of kvs k of None \<Rightarrow> PNone | Some v \<Rightarrow> v)"
| "py_get PNone k = Inl AttributeError"
| "py_get (PBool b) k = Inl AttributeError"
| "py_get (PInt n) k = Inl AttributeError"
| "py_get (PFloat r) k = Inl AttributeError"
| "py_get (PStr s) k = Inl AttributeError"
| "py_get (PList xs) k = Inl AttributeError"

text \<open>\<^verbatim>\<open>d.get(k) or dflt\<close>.\<close>

definition get_or :: "pyval \<Rightarrow> string \<Rightarrow> pyval \<Rightarrow> py_error + pyval" where
  "get_or d k dflt = (case py_get d k of Inl e \<Rightarrow> Inl e | Inr v \<Rightarrow> Inr (py_or v dflt))"

text \<open>
  What \<^verbatim>\<open>for x in v\<close> iterates over: the elements of a list, the keys of a dict, the
  characters of a string; anything else raises \<^verbatim>\<open>TypeError\<close>.
\<close>

fun py_iter :: "pyval \<Rightarrow> py_error + pyval list" where
  "py_iter (PList xs) = Inr xs"
| "py_iter (PDict kvs) = Inr (map (\<lambda>kv. PStr (fst kv)) kvs)"
| "py_iter (PStr s) = Inr (map (\<lambda>c. PStr [c]) s)"
| "py_iter PNone = Inl TypeError"
| "py_iter (PBool b) = Inl TypeError"
| "py_iter (PInt n) = Inl TypeError"
| "py_iter (PFloat r) = Inl TypeError"

section \<open>The extractor\<close>

text \<open>
  Lines 121 to 124 of \<^verbatim>\<open>extract_product_info\<close>: the image URL of one media record is
  appended to the list when \<^verbatim>\<open>image_sizes.original.url\<close> is true.
\<close>

definition collect_image :: "pyval \<Rightarrow> pyval list \<Rightarrow> py_error + pyval list" where
  "collect_image media media_image_urls =
     (case get_or media ''image_sizes'' (PDict []) of
        Inl e \<Rightarrow> Inl e
      | Inr image_sizes \<Rightarrow>
          (case get_or image_sizes ''original'' (PDict []) of
             Inl e \<Rightarrow> Inl e
           | Inr orig \<Rightarrow>
               (case py_get orig ''url'' of
                  Inl e \<Rightarrow> Inl e
                | Inr u \<Rightarrow>
                    Inr (if py_truthy u then media_image_urls @ [u]
                         else media_image_urls))))"

text \<open>
  Lines 135 to 137: \<^verbatim>\<open>any((ov or {}).get("source_id") == product_source_id for ov in
  overrides)\<close> over the elements the iteration yields. \<^verbatim>\<open>any\<close> stops at the first true
  element; an element that is true and not a dict raises before that. A value equals
  the string \<open>product_source_id\<close> only when it is that string.
\<close>

fun override_match :: "pyval list \<Rightarrow> string \<Rightarrow> py_error + bool" where
  "override_match [] product_source_id = Inr False"
| "override_match (ov # ovs) product_source_id =
     (case py_get (py_or ov (PDict [])) ''source_id'' of
        Inl e \<Rightarrow> Inl e
      | Inr v \<Rightarrow>
          if v = PStr product_source_id then Inr True
          else override_match ovs product_source_id)"

text \<open>
  Lines 144 to 148, the body of the \<^verbatim>\<open>if\<close> for a matching association, on the pair
  \<open>(dash_id, product_url)\<close>. Both \<open>tag\<close> and \<open>product\<close> are dicts there.
\<close>

definition take_match :: "pyval \<Rightarrow> pyval \<Rightarrow> pyval \<times> pyval \<Rightarrow> py_error + pyval \<times> pyval" where
  "take_match tag product st =
     (case py_get product ''id'' of
        Inl e \<Rightarrow> Inl e
      | Inr pid \<Rightarrow>
          (case py_get tag ''product_id'' of
             Inl e \<Rightarrow> Inl e
           | Inr tpid \<Rightarrow>
               (case py_get product ''url'' of
                  Inl e \<Rightarrow> Inl e
                | Inr purl \<Rightarrow>
                    Inr (if fst st = PNone then py_or pid tpid else fst st,
                         if snd st = PNone then purl else snd st))))"

text \<open>
  Lines 131 to 149: the loop over the associations of one record, with its
  \<^verbatim>\<open>break\<close> at the first match.
\<close>

fun scan_tags :: "pyval list \<Rightarrow> string \<Rightarrow> pyval \<times> pyval \<Rightarrow> py_error + pyval \<times> pyval" where
  "scan_tags [] product_source_id st = Inr st"
| "scan_tags (tag # tags) product_source_id st =
     (case get_or tag ''product'' (PDict []) of
        Inl e \<Rightarrow> Inl e
      | Inr product \<Rightarrow>
          (case get_or product ''product_overrides'' (PList []) of
             Inl e \<Rightarrow> Inl e
           | Inr overrides \<Rightarrow>
               (case py_iter overrides of
                  Inl e \<Rightarrow> Inl e
                | Inr ovs \<Rightarrow>
                    (case override_match ovs product_source_id of
                       Inl e \<Rightarrow> Inl e
                     | Inr om \<Rightarrow>
                         (case py_get tag ''source_id'' of
                            Inl e \<Rightarrow> Inl e
                          | Inr tsid \<Rightarrow>
                              (case py_get product ''source_id'' of
                                 Inl e \<Rightarrow> Inl e
                               | Inr psid \<Rightarrow>
                                   if tsid = PStr product_source_id
                                      \<or> psid = PStr product_source_id \<or> om
                                   then take_match tag product st
                                   else scan_tags tags product_source_id st))))))"

text \<open>Line 131 with the loop it heads: the search of one record.\<close>

definition search_record :: "pyval \<Rightarrow> string \<Rightarrow> pyval \<times> pyval \<Rightarrow> py_error + pyval \<times> pyval" where
  "search_record media product_source_id st =
     (case get_or media ''products'' (PList []) of
        Inl e \<Rightarrow> Inl e
      | Inr products \<Rightarrow>
          (case py_iter products of
             Inl e \<Rightarrow> Inl e
           | Inr tags \<Rightarrow> scan_tags tags product_source_id st))"

text \<open>
  Lines 119 to 149: the loop over the records, on the state \<open>(dash_id, product_url,
  media_image_urls)\<close>. The image is collected first; the search is skipped once both
  \<open>dash_id\<close> and \<open>product_url\<close> are set.
\<close>

fun extract_loop ::
  "pyval list \<Rightarrow> string \<Rightarrow> pyval \<times> pyval \<times> pyval list \<Rightarrow> py_error + pyval \<times> pyval \<times> pyval list"
where
  "extract_loop [] product_source_id st = Inr st"
| "extract_loop (media # rest) product_source_id (dash_id, product_url, media_image_urls) =
     (case collect_image media media_image_urls of
        Inl e \<Rightarrow> Inl e
      | Inr urls \<Rightarrow>
          if dash_id \<noteq> PNone \<and> product_url \<noteq> PNone
          then extract_loop rest product_source_id (dash_id, product_url, urls)
          else
            (case search_record media product_source_id (dash_id, product_url) of
               Inl e \<Rightarrow> Inl e
             | Inr (d, u) \<Rightarrow> extract_loop rest product_source_id (d, u, urls)))"

text \<open>
  \<^verbatim>\<open>extract_product_info\<close>: the result is \<open>(dash_id, product_url, media_count,
  media_image_urls)\<close>, or the exception a malformed record raised.
\<close>

definition extract_product_info ::
  "pyval list \<Rightarrow> string \<Rightarrow> py_error + pyval \<times> pyval \<times> nat \<times> pyval list"
where
  "extract_product_info media_items product_source_id =
     (case extract_loop media_items product_source_id (PNone, PNone, []) of
        Inl e \<Rightarrow> Inl e
      | Inr (dash_id, product_url, media_image_urls) \<Rightarrow>
          Inr (dash_id, product_url, length media_items, media_image_urls))"

section \<open>What the extractor computes, stated without the loop\<close>

text \<open>
  Total readings of a record, used to state what the loops compute: \<open>field d k\<close> is
  \<^verbatim>\<open>d.get(k)\<close> for a dict and \<open>PNone\<close> for anything else, \<open>entries v\<close> is what an
  iteration over \<open>v\<close> yields and nothing where \<open>v\<close> cannot be iterated.
\<close>

definition field :: "pyval \<Rightarrow> string \<Rightarrow> pyval" where
  "field d k = (case py_get d k of Inl e \<Rightarrow> PNone | Inr v \<Rightarrow> v)"

definition entries :: "pyval \<Rightarrow> pyval list" where
  "entries v = (case py_iter v of Inl e \<Rightarrow> [] | Inr xs \<Rightarrow> xs)"

fun is_dict :: "pyval \<Rightarrow> bool" where
  "is_dict (PDict kvs) = True"
| "is_dict PNone = False"
| "is_dict (PBool b) = False"
| "is_dict (PInt n) = False"
| "is_dict (PFloat r) = False"
| "is_dict (PStr s) = False"
| "is_dict (PList xs) = False"

fun is_list :: "pyval \<Rightarrow> bool" where
  "is_list (PList xs) = True"
| "is_list PNone = False"
| "is_list (PBool b) = False"
| "is_list (PInt n) = False"
| "is_list (PFloat r) = False"
| "is_list (PStr s) = False"
| "is_list (PDict kvs) = False"

text \<open>The nested product of an association: \<^verbatim>\<open>tag.get("product") or {}\<close>.\<close>

definition nested_product :: "pyval \<Rightarrow> pyval" where
  "nested_product tag = py_or (field tag ''product'') (PDict [])"

text \<open>
  The three-way disjunction of the specification: the association's own source id, the
  nested product's source id, or the source id of one of the product's overrides is the
  target.
\<close>

definition tag_matches :: "pyval \<Rightarrow> string \<Rightarrow> bool" where
  "tag_matches tag target =
     (field tag ''source_id'' = PStr target
      \<or> field (nested_product tag) ''source_id'' = PStr target
      \<or> list_ex (\<lambda>ov. field ov ''source_id'' = PStr target)
           (entries (field (nested_product tag) ''product_overrides'')))"

text \<open>The associations of a record, and whether one of them matches the target.\<close>

definition associations :: "pyval \<Rightarrow> pyval list" where
  "associations media = entries (field media ''products'')"

definition record_matches :: "pyval \<Rightarrow> string \<Rightarrow> bool" where
  "record_matches media target = list_ex (\<lambda>tag. tag_matches tag target) (associations media)"

text \<open>
  The values a matching association gives: the internal id is the product's
  \<^verbatim>\<open>id\<close> when that is true and the association's \<^verbatim>\<open>product_id\<close> otherwise, the URL is
  the product's \<^verbatim>\<open>url\<close>; a value that is already set is kept.
\<close>

definition match_values :: "pyval \<Rightarrow> pyval \<times> pyval \<Rightarrow> pyval \<times> pyval" where
  "match_values tag st =
     (if fst st = PNone
      then py_or (field (nested_product tag) ''id'') (field tag ''product_id'')
      else fst st,
      if snd st = PNone then field (nested_product tag) ''url'' else snd st)"

text \<open>The image URL a record contributes: none or one.\<close>

definition image_url_of :: "pyval \<Rightarrow> pyval list" where
  "image_url_of media =
     (let image_sizes = py_or (field media ''image_sizes'') (PDict []);
          orig = py_or (field image_sizes ''original'') (PDict []);
          u = field orig ''url''
      in if py_truthy u then [u] else [])"

definition image_urls :: "pyval list \<Rightarrow> pyval list" where
  "image_urls media_items = concat (map image_url_of media_items)"

text \<open>
  A media record as the data model describes it: a dict whose \<^verbatim>\<open>image_sizes\<close> and
  \<^verbatim>\<open>original\<close> are dicts where they are there, whose \<^verbatim>\<open>products\<close> is a list of
  associations, each a dict whose \<^verbatim>\<open>product\<close> is a dict with a list of overrides
  that are dicts. A part that is missing, \<^verbatim>\<open>null\<close> or otherwise false counts as
  missing, as \<^verbatim>\<open>x or {}\<close> reads it.
\<close>

definition falsy_or_dict :: "pyval \<Rightarrow> bool" where
  "falsy_or_dict v = (\<not> py_truthy v \<or> is_dict v)"

definition wf_product :: "pyval \<Rightarrow> bool" where
  "wf_product p =
     (is_dict p \<and>
      (\<not> py_truthy (field p ''product_overrides'')
       \<or> (is_list (field p ''product_overrides'')
           \<and> list_all falsy_or_dict (entries (field p ''product_overrides'')))))"

definition wf_tag :: "pyval \<Rightarrow> bool" where
  "wf_tag tag = (is_dict tag \<and> wf_product (nested_product tag))"

definition wf_record :: "pyval \<Rightarrow> bool" where
  "wf_record media =
     (is_dict media
      \<and> falsy_or_dict (field media ''image_sizes'')
      \<and> falsy_or_dict (field (py_or (field media ''image_sizes'') (PDict [])) ''original'')
      \<and> (\<not> py_truthy (field media ''products'')
          \<or> (is_list (field media ''products'') \<and> list_all wf_tag (associations media))))"

text \<open>
  The variant of the extractor that the specification compares with: the same loop
  without the early exit of lines 126 to 128, so every record is searched.
\<close>

fun extract_loop_always_scan ::
  "pyval list \<Rightarrow> string \<Rightarrow> pyval \<times> pyval \<times> pyval list \<Rightarrow> py_error + pyval \<times> pyval \<times> pyval list"
where
  "extract_loop_always_scan [] product_source_id st = Inr st"
| "extract_loop_always_scan (media # rest) product_source_id
       (dash_id, product_url, media_image_urls) =
     (case collect_image media media_image_urls of
        Inl e \<Rightarrow> Inl e
      | Inr urls \<Rightarrow>
          (case search_record media product_source_id (dash_id, product_url) of
             Inl e \<Rightarrow> Inl e
           | Inr (d, u) \<Rightarrow> extract_loop_always_scan rest product_source_id (d, u, urls)))"

definition extract_product_info_always_scan ::
  "pyval list \<Rightarrow> string \<Rightarrow> py_error + pyval \<times> pyval \<times> nat \<times> pyval list"
where
  "extract_product_info_always_scan media_items product_source_id =
     (case extract_loop_always_scan media_items product_source_id (PNone, PNone, []) of
        Inl e \<Rightarrow> Inl e
      | Inr (dash_id, product_url, media_image_urls) \<Rightarrow>
          Inr (dash_id, product_url, length media_items, media_image_urls))"

section \<open>The media fetcher\<close>

text \<open>
  One HTTP call either raises (\<open>RequestError\<close>) or gives a response with a status code
  and a body, which \<^verbatim>\<open>r.json()\<close> either fails to parse or parses to a value. The
  network is a function from the identifier asked for to the outcome of the call.
\<close>

datatype http_body = Unparseable | Parsed pyval

datatype http_result = RequestError | Response int http_body

definition fetch_media_for_product_source_id ::
  "(string \<Rightarrow> http_result) \<Rightarrow> string \<Rightarrow> pyval list"
where
  "fetch_media_for_product_source_id http_get product_source_id =
     (case http_get product_source_id of
        RequestError \<Rightarrow> []
      | Response status_code body \<Rightarrow>
          if status_code \<noteq> 200 then []
          else
            (case body of
               Unparseable \<Rightarrow> []
             | Parsed data \<Rightarrow> (case data of PList items \<Rightarrow> items | _ \<Rightarrow> [])))"

section \<open>The display link\<close>

text \<open>
  \<^verbatim>\<open>str\<close> of a value, as an f-string and the CSV writer apply it. Integers are written
  in decimal. The text of a float, a list or a dict is left to the parameter \<open>repr\<close>.
\<close>

definition digit_char :: "nat \<Rightarrow> char" where
  "digit_char n = ''0123456789'' ! n"

function str_nat :: "nat \<Rightarrow> string" where
  "str_nat n = (if n < 10 then [digit_char n] else str_nat (n div 10) @ [digit_char (n mod 10)])"
  by pat_completeness auto
termination
  by (relation "measure (\<lambda>n. n)") auto

definition str_int :: "int \<Rightarrow> string" where
  "str_int i = (if i < 0 then CHR ''-'' # str_nat (nat (- i)) else str_nat (nat i))"

definition py_str :: "(pyval \<Rightarrow> string) \<Rightarrow> pyval \<Rightarrow> string" where
  "py_str repr v =
     (case v of
        PNone \<Rightarrow> ''None''
      | PBool b \<Rightarrow> (if b then ''True'' else ''False'')
      | PInt n \<Rightarrow> str_int n
      | PStr s \<Rightarrow> s
      | _ \<Rightarrow> repr v)"

definition LIBRARY_BASE_URL :: string where
  "LIBRARY_BASE_URL = ''https://app.dashhudson.com''"

definition build_dash_library_link :: "(pyval \<Rightarrow> string) \<Rightarrow> pyval \<Rightarrow> pyval \<Rightarrow> string" where
  "build_dash_library_link repr brand_name dash_id =
     (if \<not> py_truthy brand_name \<or> \<not> py_truthy dash_id then []
      else LIBRARY_BASE_URL @ ''/'' @ py_str repr brand_name @ ''/library/products''
           @ ''?d=product%7CproductId%3A'' @ py_str repr dash_id)"

section \<open>CSV files\<close>

text \<open>
  A CSV file is the list of rows \<^verbatim>\<open>csv.reader\<close> yields for it, each a list of cells; a
  path holds a file or nothing. \<^verbatim>\<open>csv.DictReader\<close> takes the first row as the field
  names, skips empty rows, and turns every other row into a dict: the cells under the
  field names in order, \<^verbatim>\<open>None\<close> under the names a short row does not reach, a later
  entry for a name replacing an earlier one. \<open>dict_row\<close> lists the last entry first, so
  that \<open>map_of\<close> finds it.
\<close>

type_synonym csv_file = "string list list"

definition dict_row :: "string list \<Rightarrow> string list \<Rightarrow> (string \<times> string option) list" where
  "dict_row names row =
     rev (zip names (map Some row @ replicate (length names - length row) None))"

text \<open>\<^verbatim>\<open>row.get(k)\<close> on such a dict: the cell, or \<open>None\<close> for Python's \<^verbatim>\<open>None\<close>.\<close>

definition row_get :: "(string \<times> string option) list \<Rightarrow> string \<Rightarrow> string option" where
  "row_get d k = (case map_of d k of None \<Rightarrow> None | Some c \<Rightarrow> c)"

text \<open>
  \<^verbatim>\<open>str.strip()\<close> removes the whitespace at both ends: the characters for which
  \<^verbatim>\<open>str.isspace\<close> holds, listed here by code point.
\<close>

definition py_isspace :: "char \<Rightarrow> bool" where
  "py_isspace c = (of_char c \<in> {9, 10, 11, 12, 13, 28, 29, 30, 31, 32, 133, 160 :: nat})"

definition py_strip :: "string \<Rightarrow> string" where
  "py_strip s = rev (dropWhile py_isspace (rev (dropWhile py_isspace s)))"

section \<open>The input reader\<close>

text \<open>\<^verbatim>\<open>row.get("product_source_id") or ""\<close> for one row of the reader.\<close>

definition source_id_cell :: "string list \<Rightarrow> string list \<Rightarrow> string" where
  "source_id_cell names row =
     (case row_get (dict_row names row) ''product_source_id'' of
        None \<Rightarrow> []
      | Some s \<Rightarrow> s)"

text \<open>Lines 168 to 171 of \<^verbatim>\<open>read_product_source_ids\<close>: the loop over the rows.\<close>

fun read_rows :: "string list \<Rightarrow> csv_file \<Rightarrow> string list \<Rightarrow> string list" where
  "read_rows names [] values = values"
| "read_rows names (row # rows) values =
     (if row = [] then read_rows names rows values
      else
        (let v = py_strip (source_id_cell names row)
         in if v \<noteq> [] then read_rows names rows (values @ [v])
            else read_rows names rows values))"

definition read_product_source_ids :: "csv_file option \<Rightarrow> py_error + string list" where
  "read_product_source_ids file =
     (case file of
        None \<Rightarrow> Inl FileNotFoundError
      | Some [] \<Rightarrow> Inl ValueError
      | Some (names # rows) \<Rightarrow>
          if ''product_source_id'' \<notin> set names then Inl ValueError
          else Inr (read_rows names rows []))"

section \<open>The resume tracker\<close>

text \<open>
  Lines 191 and 192 of \<^verbatim>\<open>load_already_processed_rows\<close>. The set holds what
  \<^verbatim>\<open>row["product_id"]\<close> gives, which is \<^verbatim>\<open>None\<close> for a short row.
\<close>

fun collect_processed ::
  "string list \<Rightarrow> csv_file \<Rightarrow> string option set \<Rightarrow> string option set"
where
  "collect_processed names [] processed = processed"
| "collect_processed names (row # rows) processed =
     (if row = [] then collect_processed names rows processed
      else collect_processed names rows
             (insert (row_get (dict_row names row) ''product_id'') processed))"

definition load_already_processed_rows :: "csv_file option \<Rightarrow> string option set" where
  "load_already_processed_rows file =
     (case file of
        None \<Rightarrow> {}
      | Some [] \<Rightarrow> {}
      | Some (names # rows) \<Rightarrow>
          if ''product_id'' \<notin> set names then {}
          else collect_processed names rows {})"

section \<open>The report writer\<close>

definition fieldnames :: "string list" where
  "fieldnames =
     [''product_id'', ''dash_id'', ''dash_library_link'', ''product_url'', ''media_count'',
      ''media_image_urls'']"

text \<open>The row dict that \<^verbatim>\<open>main\<close> builds, and the cells the writer makes of it.\<close>

record report_row =
  product_id :: string
  dash_id :: pyval
  dash_library_link :: string
  product_url :: pyval
  media_count :: nat
  media_image_urls :: string

definition csv_cell :: "(pyval \<Rightarrow> string) \<Rightarrow> pyval \<Rightarrow> string" where
  "csv_cell repr v = (case v of PNone \<Rightarrow> [] | _ \<Rightarrow> py_str repr v)"

definition row_cells :: "(pyval \<Rightarrow> string) \<Rightarrow> report_row \<Rightarrow> string list" where
  "row_cells repr row =
     [product_id row, csv_cell repr (dash_id row), dash_library_link row,
      csv_cell repr (product_url row), str_int (int (media_count row)),
      media_image_urls row]"

text \<open>
  \<^verbatim>\<open>append_row\<close>: the header is written when the file did not exist, then the row.
\<close>

definition append_row ::
  "(pyval \<Rightarrow> string) \<Rightarrow> csv_file option \<Rightarrow> report_row \<Rightarrow> csv_file option"
where
  "append_row repr file row =
     (case file of
        None \<Rightarrow> Some [fieldnames, row_cells repr row]
      | Some rows \<Rightarrow> Some (rows @ [row_cells repr row]))"

section \<open>The account resolver\<close>

text \<open>
  \<^verbatim>\<open>v == brand_id\<close> for an integer \<open>brand_id\<close>: numbers compare by value, a boolean
  as 0 or 1, nothing else is equal to an integer.
\<close>

definition py_eq_int :: "pyval \<Rightarrow> int \<Rightarrow> bool" where
  "py_eq_int v n =
     (case v of
        PInt m \<Rightarrow> m = n
      | PFloat r \<Rightarrow> r = of_int n
      | PBool b \<Rightarrow> (if b then 1 else 0) = n
      | _ \<Rightarrow> False)"

text \<open>Lines 57 to 62 of \<^verbatim>\<open>get_brand_name\<close>: the loop over the items of \<^verbatim>\<open>brands\<close>.\<close>

fun find_brand :: "(string \<times> pyval) list \<Rightarrow> int \<Rightarrow> py_error + string" where
  "find_brand [] brand_id = Inl SystemExit"
| "find_brand ((brand_name, brand_obj) # brands) brand_id =
     (case py_get brand_obj ''id'' of
        Inl e \<Rightarrow> Inl e
      | Inr v \<Rightarrow> if py_eq_int v brand_id then Inr brand_name else find_brand brands brand_id)"

definition get_brand_name :: "http_result \<Rightarrow> int \<Rightarrow> py_error + string" where
  "get_brand_name self_response brand_id =
     (case self_response of
        RequestError \<Rightarrow> Inl SystemExit
      | Response status_code body \<Rightarrow>
          if status_code \<noteq> 200 then Inl SystemExit
          else
            (case body of
               Unparseable \<Rightarrow> Inl SystemExit
             | Parsed data \<Rightarrow>
                 (case get_or data ''brands'' (PDict []) of
                    Inl e \<Rightarrow> Inl e
                  | Inr brands \<Rightarrow>
                      (case brands of
                         PDict items \<Rightarrow> find_brand items brand_id
                       | _ \<Rightarrow> Inl AttributeError))))"

section \<open>The driver\<close>

text \<open>
  \<^verbatim>\<open>"; ".join(media_image_urls)\<close>: an element that is not a string raises
  \<^verbatim>\<open>TypeError\<close>.
\<close>

fun py_join :: "string \<Rightarrow> pyval list \<Rightarrow> py_error + string" where
  "py_join sep [] = Inr []"
| "py_join sep (v # vs) =
     (case v of
        PStr s \<Rightarrow>
          (case py_join sep vs of
             Inl e \<Rightarrow> Inl e
           | Inr r \<Rightarrow> Inr (if vs = [] then s else s @ sep @ r))
      | _ \<Rightarrow> Inl TypeError)"

text \<open>
  What a run reads and does not change: the credential, the answer of
  \<^verbatim>\<open>/api/self\<close>, the answers of the media endpoint, the text of values the model
  does not print itself, and the input file.
\<close>

record environment =
  bearer_token :: string
  self_response :: http_result
  media_response :: "string \<Rightarrow> http_result"
  py_repr :: "pyval \<Rightarrow> string"
  input_csv :: "csv_file option"

definition BRAND_ID :: int where
  "BRAND_ID = 2005"

text \<open>
  Lines 255 to 279 of \<^verbatim>\<open>main\<close>: the loop over the identifiers, on the output file.
  The set \<open>processed\<close> is the one computed before the loop. An exception ends the run
  and leaves the rows written so far.
\<close>

fun main_loop ::
  "environment \<Rightarrow> string \<Rightarrow> string option set \<Rightarrow> string list \<Rightarrow> csv_file option
     \<Rightarrow> csv_file option \<times> py_error option"
where
  "main_loop env brand_name processed [] output = (output, None)"
| "main_loop env brand_name processed (product_source_id # rest) output =
     (if Some product_source_id \<in> processed
      then main_loop env brand_name processed rest output
      else
        (case extract_product_info
                (fetch_media_for_product_source_id (media_response env) product_source_id)
                product_source_id of
           Inl e \<Rightarrow> (output, Some e)
         | Inr (d, u, n, urls) \<Rightarrow>
             (case py_join ''; '' urls of
                Inl e \<Rightarrow> (output, Some e)
              | Inr joined \<Rightarrow>
                  main_loop env brand_name processed rest
                    (append_row (py_repr env) output
                       \<lparr>product_id = product_source_id,
                        dash_id = (if d \<noteq> PNone then d else PStr []),
                        dash_library_link =
                          build_dash_library_link (py_repr env) (PStr brand_name) d,
                        product_url = py_or u (PStr []),
                        media_count = n,
                        media_image_urls = joined\<rparr>))))"

text \<open>\<^verbatim>\<open>main\<close>: the output file after the run, and how the run ended.\<close>

definition main :: "environment \<Rightarrow> csv_file option \<Rightarrow> csv_file option \<times> py_error option" where
  "main env output =
     (if bearer_token env = [] \<or> bearer_token env = ''YOUR_BEARER_TOKEN_HERE''
      then (output, Some SystemExit)
      else
        (case get_brand_name (self_response env) BRAND_ID of
           Inl e \<Rightarrow> (output, Some e)
         | Inr brand_name \<Rightarrow>
             (case read_product_source_ids (input_csv env) of
                Inl e \<Rightarrow> (output, Some e)
              | Inr product_source_ids \<Rightarrow>
                  main_loop env brand_name (load_already_processed_rows output)
                    product_source_ids output)))"

section \<open>Reading the output file back\<close>

text \<open>
  The cells under \<^verbatim>\<open>product_id\<close> of the rows the resume tracker reads, in file order:
  the identifiers that have a row in the output file, one entry per row.
\<close>

definition product_id_column :: "csv_file option \<Rightarrow> string option list" where
  "product_id_column file =
     (case file of
        None \<Rightarrow> []
      | Some [] \<Rightarrow> []
      | Some (names # rows) \<Rightarrow>
          if ''product_id'' \<notin> set names then []
          else map (\<lambda>row. row_get (dict_row names row) ''product_id'')
                 (filter (\<lambda>row. row \<noteq> []) rows))"

text \<open>
  An output path as the driver leaves it: nothing there, or a file that starts with the
  header row of the report.
\<close>

definition written_file :: "csv_file option \<Rightarrow> bool" where
  "written_file file =
     (case file of
        None \<Rightarrow> True
      | Some [] \<Rightarrow> False
      | Some (names # rows) \<Rightarrow> names = fieldnames)"

section \<open>Example data\<close>

definition ex_image :: "string \<Rightarrow> string \<times> pyval" where
  "ex_image url = (''image_sizes'', PDict [(''original'', PDict [(''url'', PStr url)])])"

definition ex_other_tag :: pyval where
  "ex_other_tag = PDict [(''source_id'', PStr ''zz'')]"

definition ex_tag_42 :: pyval where
  "ex_tag_42 =
     PDict [(''product_id'', PInt 7),
            (''product'', PDict [(''id'', PInt 42), (''url'', PStr ''https://x/p/42''),
                                 (''original_url'', PStr ''https://x/o/42''),
                                 (''source_id'', PStr ''t'')])]"

definition ex_tag_zero_id :: pyval where
  "ex_tag_zero_id =
     PDict [(''product_id'', PInt 7),
            (''product'', PDict [(''id'', PInt 0), (''url'', PStr ''u''),
                                 (''product_overrides'',
                                  PList [PNone, PDict [(''source_id'', PStr ''t'')]])])]"

definition ex_media_1 :: pyval where
  "ex_media_1 = PDict [ex_image ''u1'']"

definition ex_media_2 :: pyval where
  "ex_media_2 = PDict [ex_image ''u2'', (''products'', PList [ex_other_tag])]"

definition ex_media_3 :: pyval where
  "ex_media_3 = PDict [ex_image ''u3'', (''products'', PList [ex_other_tag, ex_tag_42])]"

definition ex_http_get :: "string \<Rightarrow> http_result" where
  "ex_http_get i =
     (if i = ''down'' then RequestError
      else if i = ''missing'' then Response 404 (Parsed (PList [ex_media_1]))
      else if i = ''html'' then Response 200 Unparseable
      else if i = ''object'' then Response 200 (Parsed (PDict [(''error'', PStr ''no'')]))
      else Response 200 (Parsed (PList [ex_media_1, ex_media_2])))"

definition ex_env :: "string list list \<Rightarrow> environment" where
  "ex_env rows =
     \<lparr>bearer_token = ''token'',
      self_response =
        Response 200
          (Parsed (PDict [(''brands'', PDict [(''other'', PDict [(''id'', PInt 1)]),
                                              (''acme'', PDict [(''id'', PInt 2005)])])])),
      media_response = ex_http_get,
      py_repr = (\<lambda>v. []),
      input_csv = Some ([''name'', ''product_source_id''] # rows)\<rparr>"

definition ex_output_one :: "csv_file option" where
  "ex_output_one = Some [fieldnames, [''a'', [], [], [], ''2'', ''u1; u2'']]"

definition ex_output_two :: "csv_file option" where
  "ex_output_two =
     Some [fieldnames, [''a'', [], [], [], ''2'', ''u1; u2''], [''down'', [], [], [], ''0'', []]]"

section \<open>Reading a value: the error-free form of each access\<close>

lemma py_get_Inr: "py_get d k = Inr v \<Longrightarrow> is_dict d \<and> v = field d k"
  by (cases d) (auto simp: field_def)

lemma py_get_dict: "is_dict d \<Longrightarrow> py_get d k = Inr (field d k)"
  by (cases d) (auto simp: field_def)

lemma get_or_Inr: "get_or d k dflt = Inr v \<Longrightarrow> is_dict d \<and> v = py_or (field d k) dflt"
  by (auto simp: get_or_def split: sum.splits dest: py_get_Inr)

lemma get_or_dict: "is_dict d \<Longrightarrow> get_or d k dflt = Inr (py_or (field d k) dflt)"
  by (simp add: get_or_def py_get_dict)

lemma py_iter_Inr: "py_iter v = Inr xs \<Longrightarrow> xs = entries v"
  by (simp add: entries_def)

lemma entries_falsy: "\<not> py_truthy v \<Longrightarrow> entries v = []"
  by (cases v) (auto simp: entries_def)

lemma entries_or_empty: "entries (py_or v (PList [])) = entries v"
  by (simp add: py_or_def entries_falsy)

lemma py_iter_list: "is_list v \<Longrightarrow> py_iter v = Inr (entries v)"
  by (cases v) (auto simp: entries_def)

lemma field_or_empty: "field (py_or ov (PDict [])) k = field ov k"
  by (cases ov) (auto simp: py_or_def field_def)

lemma override_match_Inr:
  "override_match ovs t = Inr b \<Longrightarrow> b = list_ex (\<lambda>ov. field ov ''source_id'' = PStr t) ovs"
proof (induction ovs)
  case Nil
  then show ?case by simp
next
  case (Cons ov ovs)
  from Cons.prems obtain v where v: "py_get (py_or ov (PDict [])) ''source_id'' = Inr v"
    by (auto split: sum.splits)
  then have fv: "v = field ov ''source_id''"
    using py_get_Inr field_or_empty by metis
  show ?case
  proof (cases "v = PStr t")
    case True
    with Cons.prems v fv show ?thesis by simp
  next
    case False
    with Cons.prems v have "override_match ovs t = Inr b" by simp
    with Cons.IH False fv show ?thesis by simp
  qed
qed

lemma is_dict_or_empty: "falsy_or_dict ov \<Longrightarrow> is_dict (py_or ov (PDict []))"
  by (auto simp: falsy_or_dict_def py_or_def)

lemma override_match_total:
  "list_all falsy_or_dict ovs \<Longrightarrow> \<exists>b. override_match ovs t = Inr b"
proof (induction ovs)
  case Nil
  then show ?case by auto
next
  case (Cons ov ovs)
  then have "is_dict (py_or ov (PDict []))" by (simp add: is_dict_or_empty)
  then have "py_get (py_or ov (PDict [])) ''source_id'' = Inr (field (py_or ov (PDict [])) ''source_id'')"
    by (rule py_get_dict)
  then have e: "override_match (ov # ovs) t =
      (if field (py_or ov (PDict [])) ''source_id'' = PStr t then Inr True else override_match ovs t)"
    by simp
  from Cons obtain b where "override_match ovs t = Inr b" by auto
  then show ?case unfolding e by auto
qed

lemma take_match_dict:
  "is_dict tag \<Longrightarrow> is_dict (nested_product tag) \<Longrightarrow>
   take_match tag (nested_product tag) st = Inr (match_values tag st)"
  by (simp add: take_match_def match_values_def py_get_dict)

lemma scan_tags_head:
  assumes "scan_tags (tag # tags) t st = Inr st'"
  shows "is_dict tag \<and> is_dict (nested_product tag) \<and>
         (if tag_matches tag t then st' = match_values tag st
          else scan_tags tags t st = Inr st')"
proof -
  from assms obtain product where p: "get_or tag ''product'' (PDict []) = Inr product"
    by (auto split: sum.splits)
  then have dt: "is_dict tag" and pe: "product = nested_product tag"
    using get_or_Inr by (auto simp: nested_product_def)
  from assms p obtain overrides where o: "get_or product ''product_overrides'' (PList []) = Inr overrides"
    by (auto split: sum.splits)
  then have dp: "is_dict product" and oe: "overrides = py_or (field product ''product_overrides'') (PList [])"
    using get_or_Inr by auto
  from assms p o obtain ovs where i: "py_iter overrides = Inr ovs"
    by (auto split: sum.splits)
  then have ie: "ovs = entries (field product ''product_overrides'')"
    using py_iter_Inr oe entries_or_empty by metis
  from assms p o i obtain om where m: "override_match ovs t = Inr om"
    by (auto split: sum.splits)
  then have me: "om = list_ex (\<lambda>ov. field ov ''source_id'' = PStr t) ovs"
    by (rule override_match_Inr)
  have g1: "py_get tag ''source_id'' = Inr (field tag ''source_id'')"
    using dt by (rule py_get_dict)
  have g2: "py_get product ''source_id'' = Inr (field product ''source_id'')"
    using dp by (rule py_get_dict)
  have tm: "tag_matches tag t = (field tag ''source_id'' = PStr t \<or> field product ''source_id'' = PStr t \<or> om)"
    by (simp add: tag_matches_def pe me ie)
  have eq: "scan_tags (tag # tags) t st =
        (if tag_matches tag t then take_match tag product st else scan_tags tags t st)"
    by (simp add: p o i m g1 g2 tm)
  show ?thesis
  proof (cases "tag_matches tag t")
    case True
    with eq assms have "take_match tag product st = Inr st'" by simp
    with take_match_dict[OF dt, of st] dp pe True dt show ?thesis by simp
  next
    case False
    with eq assms have "scan_tags tags t st = Inr st'" by simp
    with False dt dp pe show ?thesis by simp
  qed
qed

lemma scan_tags_Inr:
  "scan_tags tags t st = Inr st' \<Longrightarrow>
   st' = (case find (\<lambda>tag. tag_matches tag t) tags of None \<Rightarrow> st | Some tag \<Rightarrow> match_values tag st)"
proof (induction tags)
  case Nil
  then show ?case by simp
next
  case (Cons tag tags)
  show ?case
  proof (cases "tag_matches tag t")
    case True
    with scan_tags_head[OF Cons.prems] show ?thesis by simp
  next
    case False
    with scan_tags_head[OF Cons.prems] have "scan_tags tags t st = Inr st'" by simp
    with Cons.IH False show ?thesis by simp
  qed
qed

lemma scan_tags_total:
  "list_all wf_tag tags \<Longrightarrow> \<exists>st'. scan_tags tags t st = Inr st'"
proof (induction tags)
  case Nil
  then show ?case by simp
next
  case (Cons tag tags)
  then have dt: "is_dict tag" and wp: "wf_product (nested_product tag)"
    by (auto simp: wf_tag_def)
  let ?p = "nested_product tag"
  let ?o = "py_or (field ?p ''product_overrides'') (PList [])"
  have dp: "is_dict ?p" using wp by (simp add: wf_product_def)
  have p: "get_or tag ''product'' (PDict []) = Inr ?p"
    using dt by (simp add: get_or_dict nested_product_def)
  have o: "get_or ?p ''product_overrides'' (PList []) = Inr ?o"
    using dp by (simp add: get_or_dict)
  have lo: "is_list ?o" and ao: "list_all falsy_or_dict (entries ?o)"
    using wp by (auto simp: wf_product_def py_or_def entries_def)
  have i: "py_iter ?o = Inr (entries ?o)" using lo by (rule py_iter_list)
  obtain om where m: "override_match (entries ?o) t = Inr om"
    using override_match_total[OF ao] by blast
  have g1: "py_get tag ''source_id'' = Inr (field tag ''source_id'')"
    using dt by (rule py_get_dict)
  have g2: "py_get ?p ''source_id'' = Inr (field ?p ''source_id'')"
    using dp by (rule py_get_dict)
  obtain r where r: "scan_tags tags t st = Inr r" using Cons by auto
  have e: "scan_tags (tag # tags) t st =
      (if field tag ''source_id'' = PStr t \<or> field ?p ''source_id'' = PStr t \<or> om
       then take_match tag ?p st else scan_tags tags t st)"
    by (simp only: scan_tags.simps p o i m g1 g2 sum.case)
  show ?case unfolding e take_match_dict[OF dt dp] r by auto
qed

section \<open>The loops of the extractor\<close>

lemma search_record_Inr:
  assumes "search_record media t st = Inr st'"
  shows "st' = (case find (\<lambda>tag. tag_matches tag t) (associations media) of
                  None \<Rightarrow> st | Some tag \<Rightarrow> match_values tag st)"
proof -
  from assms obtain products where p: "get_or media ''products'' (PList []) = Inr products"
    by (auto simp: search_record_def split: sum.splits)
  then have pe: "products = py_or (field media ''products'') (PList [])"
    using get_or_Inr by blast
  from assms p obtain tags where i: "py_iter products = Inr tags"
    by (auto simp: search_record_def split: sum.splits)
  then have "tags = entries products" by (rule py_iter_Inr)
  then have te: "tags = associations media"
    by (simp add: pe entries_or_empty associations_def)
  from assms p i have "scan_tags tags t st = Inr st'"
    by (simp add: search_record_def)
  then show ?thesis unfolding te by (rule scan_tags_Inr)
qed

lemma search_record_total:
  assumes "wf_record media"
  shows "\<exists>st'. search_record media t st = Inr st'"
proof -
  let ?ps = "py_or (field media ''products'') (PList [])"
  from assms have dm: "is_dict media" by (simp add: wf_record_def)
  then have p: "get_or media ''products'' (PList []) = Inr ?ps"
    by (rule get_or_dict)
  have l: "is_list ?ps" using assms by (auto simp: wf_record_def py_or_def)
  then have i: "py_iter ?ps = Inr (entries ?ps)" by (rule py_iter_list)
  have "list_all wf_tag (entries ?ps)"
  proof (cases "py_truthy (field media ''products'')")
    case True
    with assms show ?thesis by (simp add: wf_record_def associations_def entries_or_empty)
  next
    case False
    then show ?thesis by (simp add: entries_or_empty entries_falsy)
  qed
  then obtain st' where "scan_tags (entries ?ps) t st = Inr st'"
    using scan_tags_total by blast
  then show ?thesis by (simp add: search_record_def p i)
qed

lemma collect_image_Inr:
  assumes "collect_image media urls = Inr urls'"
  shows "urls' = urls @ image_url_of media"
proof -
  from assms obtain image_sizes where a: "get_or media ''image_sizes'' (PDict []) = Inr image_sizes"
    by (auto simp: collect_image_def split: sum.splits)
  from assms a obtain orig where b: "get_or image_sizes ''original'' (PDict []) = Inr orig"
    by (auto simp: collect_image_def split: sum.splits)
  from assms a b obtain u where c: "py_get orig ''url'' = Inr u"
    by (auto simp: collect_image_def split: sum.splits)
  have ae: "image_sizes = py_or (field media ''image_sizes'') (PDict [])"
    using a get_or_Inr by blast
  have be: "orig = py_or (field image_sizes ''original'') (PDict [])"
    using b get_or_Inr by blast
  have "u = field orig ''url''" using c py_get_Inr by blast
  then have ce: "u = field (py_or (field image_sizes ''original'') (PDict [])) ''url''"
    by (simp add: be)
  from assms a b c have "urls' = (if py_truthy u then urls @ [u] else urls)"
    by (simp add: collect_image_def)
  then show ?thesis
    by (simp add: image_url_of_def Let_def ae[symmetric] ce[symmetric])
qed

lemma collect_image_total:
  assumes "wf_record media"
  shows "\<exists>urls'. collect_image media urls = Inr urls'"
proof -
  let ?a = "py_or (field media ''image_sizes'') (PDict [])"
  let ?b = "py_or (field ?a ''original'') (PDict [])"
  from assms have dm: "is_dict media" by (simp add: wf_record_def)
  then have a: "get_or media ''image_sizes'' (PDict []) = Inr ?a" by (rule get_or_dict)
  from assms have "is_dict ?a" by (simp add: wf_record_def is_dict_or_empty)
  then have b: "get_or ?a ''original'' (PDict []) = Inr ?b" by (rule get_or_dict)
  from assms have "is_dict ?b" by (simp add: wf_record_def is_dict_or_empty)
  then have c: "py_get ?b ''url'' = Inr (field ?b ''url'')" by (rule py_get_dict)
  show ?thesis by (simp add: collect_image_def a b c)
qed

lemma match_values_set: "d \<noteq> PNone \<Longrightarrow> u \<noteq> PNone \<Longrightarrow> match_values tag (d, u) = (d, u)"
  by (simp add: match_values_def)

lemma search_record_set:
  assumes "search_record media t (d, u) = Inr st'" and "d \<noteq> PNone" and "u \<noteq> PNone"
  shows "st' = (d, u)"
  using search_record_Inr[OF assms(1)] assms(2,3)
  by (simp add: match_values_set split: option.splits)

lemma search_record_no_match:
  assumes "search_record media t st = Inr st'" and "\<not> record_matches media t"
  shows "st' = st"
proof -
  from assms(2) have "find (\<lambda>tag. tag_matches tag t) (associations media) = None"
    by (simp add: record_matches_def find_None_iff list_ex_iff)
  with search_record_Inr[OF assms(1)] show ?thesis by simp
qed

lemma always_scan_refines:
  "extract_loop_always_scan ms t st = Inr r \<Longrightarrow> extract_loop ms t st = Inr r"
proof (induction ms arbitrary: st)
  case Nil
  then show ?case by simp
next
  case (Cons media rest)
  obtain d u urls where st: "st = (d, u, urls)" by (cases st) auto
  from Cons.prems st obtain urls' where c: "collect_image media urls = Inr urls'"
    by (auto split: sum.splits)
  from Cons.prems st c obtain d' u' where s: "search_record media t (d, u) = Inr (d', u')"
    by (auto split: sum.splits)
  from Cons.prems st c s have r: "extract_loop_always_scan rest t (d', u', urls') = Inr r"
    by simp
  then have IH: "extract_loop rest t (d', u', urls') = Inr r" by (rule Cons.IH)
  show ?case
  proof (cases "d \<noteq> PNone \<and> u \<noteq> PNone")
    case True
    with search_record_set[OF s] have "(d', u') = (d, u)" by simp
    with IH True st c show ?thesis by simp
  next
    case False
    with IH st c s show ?thesis by auto
  qed
qed

lemma always_scan_total:
  "list_all wf_record ms \<Longrightarrow> \<exists>r. extract_loop_always_scan ms t st = Inr r"
proof (induction ms arbitrary: st)
  case Nil
  show ?case by (rule exI[of _ st]) simp
next
  case (Cons media rest)
  obtain d u urls where st: "st = (d, u, urls)" by (cases st) auto
  from Cons.prems have wm: "wf_record media" and wr: "list_all wf_record rest" by simp_all
  obtain urls' where c: "collect_image media urls = Inr urls'"
    using collect_image_total[OF wm] by blast
  obtain d' u' where s: "search_record media t (d, u) = Inr (d', u')"
    using search_record_total[OF wm] by (metis surj_pair)
  obtain r where "extract_loop_always_scan rest t (d', u', urls') = Inr r"
    using Cons.IH[OF wr] by blast
  with st c s have "extract_loop_always_scan (media # rest) t st = Inr r" by simp
  then show ?case by blast
qed

lemma extract_loop_total:
  "list_all wf_record ms \<Longrightarrow> \<exists>r. extract_loop ms t st = Inr r"
  using always_scan_total always_scan_refines by blast

lemma extract_loop_urls:
  "extract_loop ms t (d, u, urls) = Inr (d', u', urls') \<Longrightarrow> urls' = urls @ image_urls ms"
proof (induction ms arbitrary: d u urls)
  case Nil
  then show ?case by (simp add: image_urls_def)
next
  case (Cons media rest)
  from Cons.prems obtain urls1 where c: "collect_image media urls = Inr urls1"
    by (auto split: sum.splits)
  then have u1: "urls1 = urls @ image_url_of media" by (rule collect_image_Inr)
  show ?case
  proof (cases "d \<noteq> PNone \<and> u \<noteq> PNone")
    case True
    with Cons.prems c have "extract_loop rest t (d, u, urls1) = Inr (d', u', urls')" by simp
    then have "urls' = urls1 @ image_urls rest" by (rule Cons.IH)
    then show ?thesis by (simp add: u1 image_urls_def)
  next
    case False
    with Cons.prems c obtain d1 u1' where s: "search_record media t (d, u) = Inr (d1, u1')"
      by (auto split: sum.splits)
    with Cons.prems c False have "extract_loop rest t (d1, u1', urls1) = Inr (d', u', urls')"
      by auto
    then have "urls' = urls1 @ image_urls rest" by (rule Cons.IH)
    then show ?thesis by (simp add: u1 image_urls_def)
  qed
qed

lemma extract_loop_no_match:
  "\<not> list_ex (\<lambda>m. record_matches m t) ms \<Longrightarrow>
   extract_loop ms t (PNone, PNone, urls) = Inr (d', u', urls') \<Longrightarrow> d' = PNone \<and> u' = PNone"
proof (induction ms arbitrary: urls)
  case Nil
  then show ?case by simp
next
  case (Cons media rest)
  from Cons.prems(2) obtain urls1 where c: "collect_image media urls = Inr urls1"
    by (auto split: sum.splits)
  from Cons.prems(2) c obtain d1 u1 where s: "search_record media t (PNone, PNone) = Inr (d1, u1)"
    by (auto split: sum.splits)
  from Cons.prems(1) have nm: "\<not> record_matches media t" and nr: "\<not> list_ex (\<lambda>m. record_matches m t) rest"
    by simp_all
  from search_record_no_match[OF s nm] have e: "d1 = PNone" "u1 = PNone" by simp_all
  from Cons.prems(2) c s e have "extract_loop rest t (PNone, PNone, urls1) = Inr (d', u', urls')"
    by simp
  with Cons.IH[OF nr] show ?case by blast
qed

section \<open>The fetcher, the link and the reader\<close>

lemma all_dropWhile: "(\<forall>x\<in>set (dropWhile P s). P x) = (\<forall>x\<in>set s. P x)"
  by (induction s) auto

lemma strip_right_decomp:
  "d = rev (dropWhile P (rev d)) @ rev (takeWhile P (rev d))"
proof -
  have "rev (takeWhile P (rev d) @ dropWhile P (rev d)) = rev (rev d)"
    by (simp only: takeWhile_dropWhile_id)
  then show ?thesis by (simp only: rev_append rev_rev_ident)
qed

lemma py_strip_empty_iff: "(py_strip s = []) = list_all py_isspace s"
proof -
  have "(py_strip s = []) = (\<forall>x\<in>set (dropWhile py_isspace s). py_isspace x)"
    by (simp add: py_strip_def dropWhile_eq_Nil_conv)
  then show ?thesis by (simp only: all_dropWhile list_all_iff)
qed

lemma py_strip_decomp:
  "s = takeWhile py_isspace s @ py_strip s
         @ rev (takeWhile py_isspace (rev (dropWhile py_isspace s)))"
proof -
  have "dropWhile py_isspace s =
          py_strip s @ rev (takeWhile py_isspace (rev (dropWhile py_isspace s)))"
    unfolding py_strip_def by (rule strip_right_decomp)
  moreover have "s = takeWhile py_isspace s @ dropWhile py_isspace s"
    by (simp only: takeWhile_dropWhile_id)
  ultimately show ?thesis by (simp only: )
qed

lemma py_strip_ends:
  assumes "py_strip s \<noteq> []"
  shows "\<not> py_isspace (hd (py_strip s)) \<and> \<not> py_isspace (last (py_strip s))"
proof -
  let ?d = "dropWhile py_isspace s"
  let ?e = "dropWhile py_isspace (rev ?d)"
  from assms have e: "?e \<noteq> []" by (simp only: py_strip_def rev_is_Nil_conv not_False_eq_True)
  then have "\<not> py_isspace (hd ?e)" by (rule hd_dropWhile)
  moreover have "last (py_strip s) = hd ?e"
    using e by (simp only: py_strip_def last_rev)
  ultimately have l: "\<not> py_isspace (last (py_strip s))" by simp
  have dd: "?d = py_strip s @ rev (takeWhile py_isspace (rev ?d))"
    unfolding py_strip_def by (rule strip_right_decomp)
  with assms have d: "?d \<noteq> []" by (metis append_is_Nil_conv)
  then have hd: "\<not> py_isspace (hd ?d)" by (rule hd_dropWhile)
  from dd assms have "hd ?d = hd (py_strip s)" by (metis hd_append2)
  with hd l show ?thesis by simp
qed

lemma read_rows_eq:
  "read_rows names rows acc =
     acc @ filter (\<lambda>v. v \<noteq> [])
             (map (\<lambda>row. py_strip (source_id_cell names row)) (filter (\<lambda>row. row \<noteq> []) rows))"
  by (induction rows arbitrary: acc) (simp_all add: Let_def)

lemma map_of_rev_zip_None:
  "k \<notin> set xs \<Longrightarrow> map_of (rev (zip xs ys)) k = None"
  by (auto simp: map_of_eq_None_iff dest: set_zip_leftD)

lemma map_of_rev_zip_last:
  "i < length xs \<Longrightarrow> i < length ys \<Longrightarrow> xs ! i = k \<Longrightarrow> k \<notin> set (drop (Suc i) xs) \<Longrightarrow>
   map_of (rev (zip xs ys)) k = Some (ys ! i)"
proof (induction xs arbitrary: ys i)
  case Nil
  then show ?case by simp
next
  case (Cons x xs)
  from Cons.prems(2) obtain y ys' where ys: "ys = y # ys'" by (cases ys) auto
  show ?case
  proof (cases i)
    case 0
    with Cons.prems have "x = k" and "k \<notin> set xs" by simp_all
    then show ?thesis
      using 0 ys by (simp add: map_of_rev_zip_None map_add_def)
  next
    case (Suc j)
    with Cons.prems ys have "map_of (rev (zip xs ys')) k = Some (ys' ! j)"
      by (intro Cons.IH) simp_all
    then show ?thesis using Suc ys by (simp add: map_add_def)
  qed
qed

lemma source_id_cell_at:
  assumes "i < length names" and "names ! i = ''product_source_id''"
    and "''product_source_id'' \<notin> set (drop (Suc i) names)"
  shows "source_id_cell names row = (if i < length row then row ! i else [])"
proof -
  let ?cells = "map Some row @ replicate (length names - length row) None"
  have len: "i < length ?cells" using assms(1) by simp
  have "map_of (rev (zip names ?cells)) ''product_source_id'' = Some (?cells ! i)"
    using assms(1) len assms(2) assms(3) by (rule map_of_rev_zip_last)
  moreover have "?cells ! i = (if i < length row then Some (row ! i) else None)"
    using assms(1) by (simp add: nth_append)
  ultimately show ?thesis
    by (simp add: source_id_cell_def row_get_def dict_row_def)
qed

lemma last_occurrence:
  "k \<in> set xs \<Longrightarrow> \<exists>i<length xs. xs ! i = k \<and> k \<notin> set (drop (Suc i) xs)"
proof (induction xs)
  case Nil
  then show ?case by simp
next
  case (Cons x xs)
  show ?case
  proof (cases "k \<in> set xs")
    case True
    with Cons.IH obtain i where "i < length xs" "xs ! i = k" "k \<notin> set (drop (Suc i) xs)"
      by blast
    then have "Suc i < length (x # xs) \<and> (x # xs) ! Suc i = k
               \<and> k \<notin> set (drop (Suc (Suc i)) (x # xs))"
      by simp
    then show ?thesis by blast
  next
    case False
    with Cons.prems have "x = k" by simp
    with False have "0 < length (x # xs) \<and> (x # xs) ! 0 = k \<and> k \<notin> set (drop (Suc 0) (x # xs))"
      by simp
    then show ?thesis by blast
  qed
qed

lemma py_isspace_chars:
  "py_isspace c =
     (c \<in> {CHR 0x09, CHR 0x0A, CHR 0x0B, CHR 0x0C, CHR 0x0D, CHR 0x1C, CHR 0x1D, CHR 0x1E,
            CHR 0x1F, CHR 0x20, CHR 0x85, CHR 0xA0})"
proof -
  have n: "(9::nat) = of_char (CHR 0x09)" "(10::nat) = of_char (CHR 0x0A)"
    "(11::nat) = of_char (CHR 0x0B)" "(12::nat) = of_char (CHR 0x0C)"
    "(13::nat) = of_char (CHR 0x0D)" "(28::nat) = of_char (CHR 0x1C)"
    "(29::nat) = of_char (CHR 0x1D)" "(30::nat) = of_char (CHR 0x1E)"
    "(31::nat) = of_char (CHR 0x1F)" "(32::nat) = of_char (CHR 0x20)"
    "(133::nat) = of_char (CHR 0x85)" "(160::nat) = of_char (CHR 0xA0)"
    by simp_all
  show ?thesis
    unfolding py_isspace_def
    by (simp only: n insert_iff empty_iff of_char_eq_iff)
qed

section \<open>The driver and the output file\<close>

lemma collect_processed_eq:
  "collect_processed names rows S =
     S \<union> set (map (\<lambda>row. row_get (dict_row names row) ''product_id'')
                (filter (\<lambda>row. row \<noteq> []) rows))"
  by (induction rows arbitrary: S) auto

lemma load_is_column: "load_already_processed_rows outp = set (product_id_column outp)"
proof (cases outp)
  case None
  then show ?thesis by (simp add: load_already_processed_rows_def product_id_column_def)
next
  case (Some rows)
  then show ?thesis
    by (cases rows)
       (simp_all add: load_already_processed_rows_def product_id_column_def
          collect_processed_eq)
qed

lemma row_cells_product_id:
  "row_get (dict_row fieldnames (row_cells repr r)) ''product_id'' = Some (product_id r)"
  by (simp add: row_get_def dict_row_def fieldnames_def row_cells_def)

lemma row_cells_not_empty: "row_cells repr r \<noteq> []"
  by (simp add: row_cells_def)

lemma product_id_in_fieldnames: "''product_id'' \<in> set fieldnames"
  by (simp add: fieldnames_def)

lemma append_row_column:
  assumes "written_file outp"
  shows "written_file (append_row repr outp r) \<and>
         product_id_column (append_row repr outp r) = product_id_column outp @ [Some (product_id r)]"
proof (cases outp)
  case None
  then show ?thesis
    by (simp add: append_row_def written_file_def product_id_column_def
          product_id_in_fieldnames row_cells_not_empty row_cells_product_id)
next
  case (Some rows)
  with assms obtain rest where rows: "rows = fieldnames # rest"
    by (cases rows) (simp_all add: written_file_def)
  with Some show ?thesis
    by (simp add: append_row_def written_file_def product_id_column_def
          product_id_in_fieldnames row_cells_not_empty row_cells_product_id)
qed

lemma main_loop_appends:
  "written_file out \<Longrightarrow> main_loop env b P ids out = (out', res) \<Longrightarrow>
   written_file out' \<and>
   (\<exists>k. product_id_column out' =
          product_id_column out @ map Some (take k (filter (\<lambda>i. Some i \<notin> P) ids))) \<and>
   (res = None \<longrightarrow>
      product_id_column out' = product_id_column out @ map Some (filter (\<lambda>i. Some i \<notin> P) ids))"
proof (induction ids arbitrary: out)
  case Nil
  then show ?case by simp
next
  case (Cons i rest)
  let ?new = "filter (\<lambda>i. Some i \<notin> P)"
  show ?case
  proof (cases "Some i \<in> P")
    case True
    with Cons.prems have "main_loop env b P rest out = (out', res)" by simp
    from Cons.IH [OF Cons.prems(1) this] True show ?thesis by simp
  next
    case False
    show ?thesis
    proof (cases "extract_product_info
                    (fetch_media_for_product_source_id (media_response env) i) i")
      case (Inl e)
      with False Cons.prems have "out' = out" by simp
      with Cons.prems(1) have "written_file out'"
        and "product_id_column out' = product_id_column out @ map Some (take 0 (?new (i # rest)))"
        by simp_all
      moreover from Inl False Cons.prems have "res \<noteq> None" by auto
      ultimately show ?thesis by blast
    next
      case (Inr r)
      obtain d u n urls where r: "r = (d, u, n, urls)" by (cases r) auto
      show ?thesis
      proof (cases "py_join ''; '' urls")
        case (Inl e)
        with Inr r False Cons.prems have "out' = out" by simp
        with Cons.prems(1) have "written_file out'"
          and "product_id_column out' = product_id_column out @ map Some (take 0 (?new (i # rest)))"
          by simp_all
        moreover from Inl Inr r False Cons.prems have "res \<noteq> None" by auto
        ultimately show ?thesis by blast
      next
        case joined: (Inr joined)
        define row where "row =
          \<lparr>product_id = i,
           dash_id = (if d \<noteq> PNone then d else PStr []),
           dash_library_link = build_dash_library_link (py_repr env) (PStr b) d,
           product_url = py_or u (PStr []),
           media_count = n,
           media_image_urls = joined\<rparr>"
        let ?out1 = "append_row (py_repr env) out row"
        from joined Inr r False Cons.prems
        have run: "main_loop env b P rest ?out1 = (out', res)"
          by (simp add: row_def)
        from append_row_column [OF Cons.prems(1), of "py_repr env" row]
        have w1: "written_file ?out1"
          and c1: "product_id_column ?out1 = product_id_column out @ [Some i]"
          by (simp_all add: row_def)
        from Cons.IH [OF w1 run] obtain k where
          w: "written_file out'"
          and k: "product_id_column out' = product_id_column ?out1 @ map Some (take k (?new rest))"
          and n: "res = None \<longrightarrow>
                  product_id_column out' = product_id_column ?out1 @ map Some (?new rest)"
          by blast
        from k c1 False have "product_id_column out' =
            product_id_column out @ map Some (take (Suc k) (?new (i # rest)))"
          by simp
        moreover from n c1 False have "res = None \<longrightarrow>
            product_id_column out' = product_id_column out @ map Some (?new (i # rest))"
          by simp
        ultimately show ?thesis using w by blast
      qed
    qed
  qed
qed

lemma main_loop_all_skipped:
  "\<forall>i\<in>set ids. Some i \<in> P \<Longrightarrow> main_loop env b P ids out = (out, None)"
  by (induction ids) simp_all

lemma count_list_distinct_le: "distinct xs \<Longrightarrow> count_list xs x \<le> 1"
  by (induction xs) (auto simp: count_list_0_iff)

lemma main_cases:
  assumes "main env output = (output', result)"
    and "read_product_source_ids (input_csv env) = Inr ids"
  shows "output' = output \<and> result \<noteq> None \<or>
         (\<exists>b. main_loop env b (load_already_processed_rows output) ids output = (output', result))"
  using assms by (auto simp: main_def split: if_splits sum.splits)

section \<open>Claims about the extractor\<close>

lemmas ex_defs = ex_image_def ex_other_tag_def ex_tag_42_def ex_tag_zero_id_def
  ex_media_1_def ex_media_2_def ex_media_3_def

lemmas read_defs = field_def entries_def nested_product_def tag_matches_def associations_def
  record_matches_def match_values_def image_url_of_def image_urls_def falsy_or_dict_def
  wf_product_def wf_tag_def wf_record_def py_or_def

lemmas run_defs = get_or_def collect_image_def take_match_def search_record_def
  extract_product_info_def extract_product_info_always_scan_def py_or_def

text \<open>
  C2. The search of one record returns for every well-formed record, and whenever it
  returns, the pair \<open>(dash_id, product_url)\<close> it gives is the one it was given when no
  association of the record satisfies the three-way disjunction, and otherwise the
  values of the first association in list order that satisfies it.
\<close>

theorem search_record_first_match:
  "(wf_record media \<longrightarrow> (\<exists>st'. search_record media target st = Inr st')) \<and>
   (\<forall>st'. search_record media target st = Inr st' \<longrightarrow>
      st' = (case find (\<lambda>tag. tag_matches tag target) (associations media) of
               None \<Rightarrow> st
             | Some tag \<Rightarrow> match_values tag st))"
  using search_record_total search_record_Inr by blast

theorem search_record_first_match_witness:
  "wf_record ex_media_3 \<and>
   search_record ex_media_3 ''t'' (PNone, PNone) = Inr (PInt 42, PStr ''https://x/p/42'') \<and>
   find (\<lambda>tag. tag_matches tag ''t'') (associations ex_media_3) = Some ex_tag_42 \<and>
   match_values ex_tag_42 (PNone, PNone) = (PInt 42, PStr ''https://x/p/42'')"
  using search_record_first_match [of ex_media_3 "''t''" "(PNone, PNone)"]
  by (simp add: ex_defs read_defs run_defs)

text \<open>
  C3, as the claim states it, fails: the product of \<open>ex_tag_zero_id\<close> has the id 0,
  which is not absent, and the internal id is still taken from the association's
  \<^verbatim>\<open>product_id\<close>, 7.
\<close>

theorem fallback_on_present_id_counterexample:
  "tag_matches ex_tag_zero_id ''t'' \<and>
   field (nested_product ex_tag_zero_id) ''id'' = PInt 0 \<and>
   field ex_tag_zero_id ''product_id'' = PInt 7 \<and>
   extract_product_info [PDict [(''products'', PList [ex_tag_zero_id])]] ''t''
     = Inr (PInt 7, PStr ''u'', 1, [])"
  by (simp add: ex_defs read_defs run_defs)

text \<open>
  C3, amended. When the loop over the associations returns, its first association
  matches and the internal id is not yet set, the internal id is the nested product's
  \<^verbatim>\<open>id\<close> if that value is true in Python's sense, and the association's own
  \<^verbatim>\<open>product_id\<close> if and only if it is not (absent, \<^verbatim>\<open>null\<close>, \<^verbatim>\<open>false\<close>, 0, or an empty
  string, list or dict). The canonical URL, when not yet set, is the nested product's
  \<^verbatim>\<open>url\<close>.
\<close>

theorem matching_association_values:
  assumes "scan_tags (tag # tags) target (PNone, u) = Inr (d', u')"
    and "tag_matches tag target"
  shows "d' = (if py_truthy (field (nested_product tag) ''id'')
               then field (nested_product tag) ''id''
               else field tag ''product_id'')
         \<and> u' = (if u = PNone then field (nested_product tag) ''url'' else u)"
  using scan_tags_head [OF assms(1)] assms(2)
  by (simp add: match_values_def py_or_def)

theorem matching_association_values_witness:
  "scan_tags [ex_tag_42, ex_other_tag] ''t'' (PNone, PNone)
     = Inr (PInt 42, PStr ''https://x/p/42'') \<and>
   tag_matches ex_tag_42 ''t'' \<and>
   field (nested_product ex_tag_42) ''id'' = PInt 42 \<and>
   field (nested_product ex_tag_42) ''url'' = PStr ''https://x/p/42'' \<and>
   field (nested_product ex_tag_42) ''original_url'' = PStr ''https://x/o/42''"
  using matching_association_values
    [of ex_tag_42 "[ex_other_tag]" "''t''" PNone "PInt 42" "PStr ''https://x/p/42''"]
  by (simp add: ex_defs read_defs run_defs)

text \<open>
  C4. The extractor returns for every list of well-formed records, and whenever it
  returns, the media count is the length of the list it was given.
\<close>

theorem media_count_is_length:
  "(list_all wf_record media_items \<longrightarrow>
      (\<exists>r. extract_product_info media_items target = Inr r)) \<and>
   (\<forall>d u n urls. extract_product_info media_items target = Inr (d, u, n, urls) \<longrightarrow>
      n = length media_items)"
proof -
  have "list_all wf_record media_items \<longrightarrow>
          (\<exists>r. extract_product_info media_items target = Inr r)"
    using extract_loop_total [of media_items target "(PNone, PNone, [])"]
    by (auto simp: extract_product_info_def)
  moreover have "\<forall>d u n urls. extract_product_info media_items target = Inr (d, u, n, urls) \<longrightarrow>
      n = length media_items"
    by (auto simp: extract_product_info_def split: sum.splits)
  ultimately show ?thesis by blast
qed

theorem media_count_is_length_witness:
  "list_all wf_record [ex_media_1, ex_media_2, ex_media_3] \<and>
   extract_product_info [ex_media_1, ex_media_2, ex_media_3] ''t''
     = Inr (PInt 42, PStr ''https://x/p/42'', 3, [PStr ''u1'', PStr ''u2'', PStr ''u3'']) \<and>
   length [ex_media_1, ex_media_2, ex_media_3] = 3"
  using media_count_is_length [of "[ex_media_1, ex_media_2, ex_media_3]" "''t''"]
  by (simp add: ex_defs read_defs run_defs)

text \<open>
  C5. For a list in which no record matches the target, the extractor returns for
  every list of well-formed records, and whenever it returns, the internal id and the
  canonical URL are absent, the count is the length of the list, and the image URLs are
  those of all records in list order.
\<close>

theorem no_match_keeps_images:
  assumes "\<not> list_ex (\<lambda>media. record_matches media target) media_items"
  shows "(list_all wf_record media_items \<longrightarrow>
            extract_product_info media_items target
              = Inr (PNone, PNone, length media_items, image_urls media_items)) \<and>
         (\<forall>r. extract_product_info media_items target = Inr r \<longrightarrow>
            r = (PNone, PNone, length media_items, image_urls media_items))"
proof -
  have part: "r = (PNone, PNone, length media_items, image_urls media_items)"
    if r: "extract_product_info media_items target = Inr r" for r
  proof -
    from r obtain d u urls where
      l: "extract_loop media_items target (PNone, PNone, []) = Inr (d, u, urls)"
      and re: "r = (d, u, length media_items, urls)"
      by (auto simp: extract_product_info_def split: sum.splits)
    from extract_loop_no_match [OF assms l] have "d = PNone" "u = PNone" by simp_all
    moreover from extract_loop_urls [OF l] have "urls = image_urls media_items" by simp
    ultimately show ?thesis using re by simp
  qed
  moreover have "extract_product_info media_items target
        = Inr (PNone, PNone, length media_items, image_urls media_items)"
    if w: "list_all wf_record media_items"
  proof -
    from extract_loop_total [OF w, of target "(PNone, PNone, [])"]
    obtain r where "extract_product_info media_items target = Inr r"
      by (auto simp: extract_product_info_def)
    with part show ?thesis by simp
  qed
  ultimately show ?thesis by blast
qed

theorem no_match_keeps_images_witness:
  "\<not> list_ex (\<lambda>media. record_matches media ''t'') [ex_media_1, ex_media_2] \<and>
   list_all wf_record [ex_media_1, ex_media_2] \<and>
   extract_product_info [ex_media_1, ex_media_2] ''t''
     = Inr (PNone, PNone, 2, [PStr ''u1'', PStr ''u2''])"
proof -
  have h: "\<not> list_ex (\<lambda>media. record_matches media ''t'') [ex_media_1, ex_media_2]"
    by (simp add: ex_defs read_defs)
  have w: "list_all wf_record [ex_media_1, ex_media_2]"
    by (simp add: ex_defs read_defs)
  have i: "image_urls [ex_media_1, ex_media_2] = [PStr ''u1'', PStr ''u2'']"
    by (simp add: ex_defs read_defs)
  from no_match_keeps_images [OF h] w
  have "extract_product_info [ex_media_1, ex_media_2] ''t''
          = Inr (PNone, PNone, length [ex_media_1, ex_media_2],
                 image_urls [ex_media_1, ex_media_2])"
    by blast
  then have "extract_product_info [ex_media_1, ex_media_2] ''t''
          = Inr (PNone, PNone, 2, [PStr ''u1'', PStr ''u2''])"
    unfolding i by simp
  with h w show ?thesis by blast
qed

text \<open>
  C6. For every list of well-formed records the variant that searches every record and
  the extractor with the early exit return the same internal id, canonical URL, media
  count and image URLs; and on any list, whenever the variant returns, the extractor
  returns the same.
\<close>

theorem early_exit_same_result:
  "(list_all wf_record media_items \<longrightarrow>
      (\<exists>r. extract_product_info_always_scan media_items target = Inr r \<and>
           extract_product_info media_items target = Inr r)) \<and>
   (\<forall>r. extract_product_info_always_scan media_items target = Inr r \<longrightarrow>
      extract_product_info media_items target = Inr r)"
proof -
  have "\<exists>r. extract_product_info_always_scan media_items target = Inr r"
    if w: "list_all wf_record media_items"
    using always_scan_total [OF w, of target "(PNone, PNone, [])"]
    by (auto simp: extract_product_info_always_scan_def)
  moreover have "extract_product_info media_items target = Inr r"
    if r: "extract_product_info_always_scan media_items target = Inr r" for r
  proof -
    from r obtain st where
      l: "extract_loop_always_scan media_items target (PNone, PNone, []) = Inr st"
      by (auto simp: extract_product_info_always_scan_def split: sum.splits)
    from always_scan_refines [OF l] l r show ?thesis
      by (simp add: extract_product_info_always_scan_def extract_product_info_def)
  qed
  ultimately show ?thesis by blast
qed

theorem early_exit_same_result_witness:
  "list_all wf_record [ex_media_3, ex_media_1, PDict [(''products'', PList [ex_tag_zero_id])]] \<and>
   extract_product_info_always_scan
       [ex_media_3, ex_media_1, PDict [(''products'', PList [ex_tag_zero_id])]] ''t''
     = Inr (PInt 42, PStr ''https://x/p/42'', 3, [PStr ''u3'', PStr ''u1'']) \<and>
   extract_product_info
       [ex_media_3, ex_media_1, PDict [(''products'', PList [ex_tag_zero_id])]] ''t''
     = Inr (PInt 42, PStr ''https://x/p/42'', 3, [PStr ''u3'', PStr ''u1''])"
  using early_exit_same_result
    [of "[ex_media_3, ex_media_1, PDict [(''products'', PList [ex_tag_zero_id])]]" "''t''"]
  by (simp add: ex_defs read_defs run_defs)

section \<open>Claims about the fetcher, the display link and the input reader\<close>

text \<open>
  C7. The media fetcher has no failing outcome: it returns the empty list when the
  request raises, when the status is not 200, when the body does not parse, and when
  the body parses to something that is not a list; a body that parses to a list is
  returned as it is.
\<close>

theorem fetch_failures_give_empty_list:
  "(http_get i = RequestError \<longrightarrow> fetch_media_for_product_source_id http_get i = []) \<and>
   (\<forall>status body. http_get i = Response status body \<longrightarrow> status \<noteq> 200 \<longrightarrow>
      fetch_media_for_product_source_id http_get i = []) \<and>
   (http_get i = Response 200 Unparseable \<longrightarrow>
      fetch_media_for_product_source_id http_get i = []) \<and>
   (\<forall>data. http_get i = Response 200 (Parsed data) \<longrightarrow> \<not> is_list data \<longrightarrow>
      fetch_media_for_product_source_id http_get i = []) \<and>
   (\<forall>items. http_get i = Response 200 (Parsed (PList items)) \<longrightarrow>
      fetch_media_for_product_source_id http_get i = items)"
proof -
  have "fetch_media_for_product_source_id http_get i = []"
    if "http_get i = Response 200 (Parsed data)" and "\<not> is_list data" for data
    using that by (cases data) (simp_all add: fetch_media_for_product_source_id_def)
  then show ?thesis
    by (simp add: fetch_media_for_product_source_id_def)
qed

theorem fetch_failures_give_empty_list_witness:
  "fetch_media_for_product_source_id ex_http_get ''down'' = [] \<and>
   fetch_media_for_product_source_id ex_http_get ''missing'' = [] \<and>
   fetch_media_for_product_source_id ex_http_get ''html'' = [] \<and>
   fetch_media_for_product_source_id ex_http_get ''object'' = [] \<and>
   fetch_media_for_product_source_id ex_http_get ''a'' = [ex_media_1, ex_media_2]"
  using fetch_failures_give_empty_list [of ex_http_get "''down''"]
    fetch_failures_give_empty_list [of ex_http_get "''missing''"]
    fetch_failures_give_empty_list [of ex_http_get "''html''"]
    fetch_failures_give_empty_list [of ex_http_get "''object''"]
    fetch_failures_give_empty_list [of ex_http_get "''a''"]
  by (simp add: ex_http_get_def)

text \<open>
  C8, as the claim states it, fails: the account name \<^verbatim>\<open>"acme"\<close> and the internal id 0
  are both present, and the display link is the empty string.
\<close>

theorem link_for_present_id_counterexample:
  "PStr ''acme'' \<noteq> PNone \<and> PInt 0 \<noteq> PNone \<and>
   build_dash_library_link (\<lambda>v. []) (PStr ''acme'') (PInt 0) = []"
  by (simp add: build_dash_library_link_def)

text \<open>
  C8, amended. For an account name and an integer internal id, the display link is the
  fixed URL template populated with both exactly when the name is not empty and the id
  is not 0; it is the empty string otherwise, and whenever either of the two is absent.
\<close>

theorem display_link_template:
  "build_dash_library_link repr (PStr name) (PInt n) =
     (if name \<noteq> [] \<and> n \<noteq> 0
      then ''https://app.dashhudson.com/'' @ name
           @ ''/library/products?d=product%7CproductId%3A'' @ str_int n
      else []) \<and>
   build_dash_library_link repr PNone internal_id = [] \<and>
   build_dash_library_link repr account_name PNone = []"
  by (simp add: build_dash_library_link_def LIBRARY_BASE_URL_def py_str_def)

theorem display_link_template_witness:
  "build_dash_library_link (\<lambda>v. []) (PStr ''acme'') (PInt 42) =
     ''https://app.dashhudson.com/acme/library/products?d=product%7CproductId%3A42'' \<and>
   build_dash_library_link (\<lambda>v. []) (PStr ''acme'') PNone = []"
  using display_link_template [of "\<lambda>v. []" "''acme''" 42 PNone "PStr ''acme''"]
  by (simp add: str_int_def digit_char_def)

text \<open>
  C10. For an input file whose header has the column \<^verbatim>\<open>product_source_id\<close>, the column
  has a position in the header (the last one of that name, as the reader's dict keeps
  it), and the reader returns, in row order, the stripped cell at that position of every
  row that is not empty and whose stripped cell is not empty; a row too short to reach
  the position has no value and is omitted. Stripping removes whitespace at both ends and
  nothing else; what it leaves is empty exactly when the value is nothing but
  whitespace, and otherwise begins and ends with a character that is not whitespace.
  Whitespace is tab, line feed, vertical tab, form feed, carriage return, the four
  separators 0x1C to 0x1F, space, next line (0x85) and the no-break space (0xA0).
\<close>

theorem reader_strips_and_omits:
  assumes "''product_source_id'' \<in> set names"
  shows "(\<exists>i<length names. names ! i = ''product_source_id''
            \<and> ''product_source_id'' \<notin> set (drop (Suc i) names)) \<and>
         (\<forall>i<length names. names ! i = ''product_source_id''
            \<and> ''product_source_id'' \<notin> set (drop (Suc i) names) \<longrightarrow>
            read_product_source_ids (Some (names # rows)) =
              Inr (filter (\<lambda>v. v \<noteq> [])
                     (map (\<lambda>row. py_strip (if i < length row then row ! i else []))
                        (filter (\<lambda>row. row \<noteq> []) rows)))) \<and>
         (\<forall>s. (py_strip s = []) = list_all py_isspace s) \<and>
         (\<forall>s. \<exists>a b. s = a @ py_strip s @ b \<and> list_all py_isspace a \<and> list_all py_isspace b) \<and>
         (\<forall>s. py_strip s \<noteq> [] \<longrightarrow>
            \<not> py_isspace (hd (py_strip s)) \<and> \<not> py_isspace (last (py_strip s))) \<and>
         (\<forall>c. py_isspace c =
            (c \<in> {CHR 0x09, CHR 0x0A, CHR 0x0B, CHR 0x0C, CHR 0x0D, CHR 0x1C, CHR 0x1D,
                   CHR 0x1E, CHR 0x1F, CHR 0x20, CHR 0x85, CHR 0xA0}))"
proof -
  have p: "\<exists>i<length names. names ! i = ''product_source_id''
            \<and> ''product_source_id'' \<notin> set (drop (Suc i) names)"
    using assms by (rule last_occurrence)
  have r: "read_product_source_ids (Some (names # rows)) =
              Inr (filter (\<lambda>v. v \<noteq> [])
                     (map (\<lambda>row. py_strip (if i < length row then row ! i else []))
                        (filter (\<lambda>row. row \<noteq> []) rows)))"
    if i: "i < length names" "names ! i = ''product_source_id''"
      "''product_source_id'' \<notin> set (drop (Suc i) names)" for i
  proof -
    have "source_id_cell names row = (if i < length row then row ! i else [])" for row
      using i by (rule source_id_cell_at)
    then have "(\<lambda>row. py_strip (source_id_cell names row))
             = (\<lambda>row. py_strip (if i < length row then row ! i else []))"
      by simp
    moreover have "read_product_source_ids (Some (names # rows)) =
              Inr (filter (\<lambda>v. v \<noteq> [])
                     (map (\<lambda>row. py_strip (source_id_cell names row))
                        (filter (\<lambda>row. row \<noteq> []) rows)))"
      using assms by (simp add: read_product_source_ids_def read_rows_eq)
    ultimately show ?thesis by (simp only: )
  qed
  have r': "\<forall>i<length names. names ! i = ''product_source_id''
            \<and> ''product_source_id'' \<notin> set (drop (Suc i) names) \<longrightarrow>
            read_product_source_ids (Some (names # rows)) =
              Inr (filter (\<lambda>v. v \<noteq> [])
                     (map (\<lambda>row. py_strip (if i < length row then row ! i else []))
                        (filter (\<lambda>row. row \<noteq> []) rows)))"
    using r by blast
  have d: "\<exists>a b. s = a @ py_strip s @ b \<and> list_all py_isspace a \<and> list_all py_isspace b"
    for s
  proof (intro exI conjI)
    show "s = takeWhile py_isspace s @ py_strip s
               @ rev (takeWhile py_isspace (rev (dropWhile py_isspace s)))"
      by (rule py_strip_decomp)
    show "list_all py_isspace (takeWhile py_isspace s)"
      by (auto simp: list_all_iff dest: set_takeWhileD)
    show "list_all py_isspace (rev (takeWhile py_isspace (rev (dropWhile py_isspace s))))"
      by (auto simp: list_all_iff dest: set_takeWhileD)
  qed
  have d': "\<forall>s. \<exists>a b. s = a @ py_strip s @ b \<and> list_all py_isspace a \<and> list_all py_isspace b"
    by (rule allI) (rule d)
  have e: "\<forall>s. (py_strip s = []) = list_all py_isspace s"
    by (rule allI) (rule py_strip_empty_iff)
  have f: "\<forall>s. py_strip s \<noteq> [] \<longrightarrow>
            \<not> py_isspace (hd (py_strip s)) \<and> \<not> py_isspace (last (py_strip s))"
    by (intro allI impI) (rule py_strip_ends)
  have w: "\<forall>c. py_isspace c =
            (c \<in> {CHR 0x09, CHR 0x0A, CHR 0x0B, CHR 0x0C, CHR 0x0D, CHR 0x1C, CHR 0x1D,
                   CHR 0x1E, CHR 0x1F, CHR 0x20, CHR 0x85, CHR 0xA0})"
    by (rule allI) (rule py_isspace_chars)
  show ?thesis by (intro conjI) (rule p, rule r', rule e, rule d', rule f, rule w)
qed

theorem reader_strips_and_omits_witness:
  "''product_source_id'' \<in> set [''name'', ''price'', ''product_source_id''] \<and>
   read_product_source_ids
     (Some [[''name'', ''price'', ''product_source_id''],
            [''Shirt'', ''5'', '' a ''], [], [''Hat'', ''3''], [''Cap'', ''1'', ''   ''],
            [''Sock'', ''2'', CHR 0x09 # ''b c'' @ [CHR 0x0A]]])
     = Inr [''a'', ''b c'']"
proof -
  let ?names = "[''name'', ''price'', ''product_source_id'']"
  let ?rows = "[[''Shirt'', ''5'', '' a ''], [], [''Hat'', ''3''], [''Cap'', ''1'', ''   ''],
                [''Sock'', ''2'', CHR 0x09 # ''b c'' @ [CHR 0x0A]]]"
  have h: "''product_source_id'' \<in> set ?names" by simp
  have i1: "(2::nat) < length ?names" by simp
  have i2: "?names ! 2 = ''product_source_id''
             \<and> ''product_source_id'' \<notin> set (drop (Suc 2) ?names)"
    by simp
  have v: "filter (\<lambda>v. v \<noteq> [])
             (map (\<lambda>row. py_strip (if 2 < length row then row ! 2 else []))
                (filter (\<lambda>row. row \<noteq> []) ?rows))
           = [''a'', ''b c'']"
    by (simp add: py_strip_def py_isspace_def)
  note all = reader_strips_and_omits [OF h, of ?rows, THEN conjunct2, THEN conjunct1]
  from all [rule_format, OF i1 i2]
  have "read_product_source_ids (Some (?names # ?rows)) = Inr [''a'', ''b c'']"
    unfolding v .
  with h show ?thesis by (rule conjI)
qed

section \<open>Claims about the driver\<close>

text \<open>The example run, step by step.\<close>

lemma ex_brand: "get_brand_name (self_response (ex_env rows)) BRAND_ID = Inr ''acme''"
  by (simp add: ex_env_def get_brand_name_def BRAND_ID_def get_or_def py_or_def py_eq_int_def)

lemma ex_token:
  "bearer_token (ex_env rows) \<noteq> [] \<and> bearer_token (ex_env rows) \<noteq> ''YOUR_BEARER_TOKEN_HERE''"
  by (simp add: ex_env_def)

lemma ex_read_twice:
  "read_product_source_ids (input_csv (ex_env [[''1'', ''a''], [''2'', ''a'']])) = Inr [''a'', ''a'']"
  by (simp add: ex_env_def read_product_source_ids_def source_id_cell_def row_get_def
        dict_row_def py_strip_def py_isspace_def Let_def)

lemma ex_read_two:
  "read_product_source_ids (input_csv (ex_env [[''1'', ''a''], [''2'', ''down'']]))
     = Inr [''a'', ''down'']"
  by (simp add: ex_env_def read_product_source_ids_def source_id_cell_def row_get_def
        dict_row_def py_strip_def py_isspace_def Let_def)

lemma ex_extract_a:
  "extract_product_info
     (fetch_media_for_product_source_id (media_response (ex_env rows)) ''a'') ''a''
   = Inr (PNone, PNone, 2, [PStr ''u1'', PStr ''u2''])"
  by (simp add: ex_env_def ex_http_get_def fetch_media_for_product_source_id_def
        ex_image_def ex_other_tag_def ex_media_1_def ex_media_2_def
        get_or_def collect_image_def take_match_def search_record_def
        extract_product_info_def py_or_def)

lemma ex_extract_down:
  "extract_product_info
     (fetch_media_for_product_source_id (media_response (ex_env rows)) ''down'') ''down''
   = Inr (PNone, PNone, 0, [])"
  by (simp add: ex_env_def ex_http_get_def fetch_media_for_product_source_id_def
        extract_product_info_def)

lemma ex_join: "py_join ''; '' [PStr ''u1'', PStr ''u2''] = Inr ''u1; u2''"
  by simp

lemma ex_row_a:
  "row_cells (py_repr (ex_env rows))
     \<lparr>product_id = ''a'', dash_id = PStr [],
      dash_library_link = build_dash_library_link (py_repr (ex_env rows)) (PStr ''acme'') PNone,
      product_url = py_or PNone (PStr []), media_count = 2, media_image_urls = ''u1; u2''\<rparr>
   = [''a'', [], [], [], ''2'', ''u1; u2'']"
  by (simp add: row_cells_def csv_cell_def py_str_def py_or_def build_dash_library_link_def
        str_int_def digit_char_def)

lemma ex_row_down:
  "row_cells (py_repr (ex_env rows))
     \<lparr>product_id = ''down'', dash_id = PStr [],
      dash_library_link = build_dash_library_link (py_repr (ex_env rows)) (PStr ''acme'') PNone,
      product_url = py_or PNone (PStr []), media_count = 0, media_image_urls = []\<rparr>
   = [''down'', [], [], [], ''0'', []]"
  by (simp add: row_cells_def csv_cell_def py_str_def py_or_def build_dash_library_link_def
        str_int_def digit_char_def)

lemma ex_loop_twice:
  "main_loop (ex_env rows) ''acme'' {} [''a'', ''a''] None
   = (Some [fieldnames, [''a'', [], [], [], ''2'', ''u1; u2''],
            [''a'', [], [], [], ''2'', ''u1; u2'']], None)"
  by (simp add: ex_extract_a ex_row_a append_row_def)

lemma ex_loop_resume:
  "main_loop (ex_env rows) ''acme'' {Some ''a''} [''a'', ''down''] ex_output_one
   = (ex_output_two, None)"
  by (simp add: ex_extract_down ex_row_down append_row_def ex_output_one_def ex_output_two_def)

lemma ex_read_one:
  "read_product_source_ids (input_csv (ex_env [[''1'', ''a'']])) = Inr [''a'']"
  by (simp add: ex_env_def read_product_source_ids_def source_id_cell_def row_get_def
        dict_row_def py_strip_def py_isspace_def Let_def)

lemma ex_loop_no_header:
  "main_loop (ex_env rows) ''acme'' {} [''a''] (Some old)
   = (Some (old @ [[''a'', [], [], [], ''2'', ''u1; u2'']]), None)"
  by (simp add: ex_extract_a ex_row_a append_row_def)

lemma ex_load_no_header:
  "load_already_processed_rows (Some []) = {} \<and>
   load_already_processed_rows (Some [[''a'', [], [], [], ''2'', ''u1; u2'']]) = {}"
  by (simp add: load_already_processed_rows_def)

lemma ex_load_one: "load_already_processed_rows ex_output_one = {Some ''a''}"
  by (simp add: load_already_processed_rows_def ex_output_one_def fieldnames_def
        row_get_def dict_row_def)

lemma ex_load_two: "load_already_processed_rows ex_output_two = {Some ''a'', Some ''down''}"
  by (auto simp: load_already_processed_rows_def ex_output_two_def fieldnames_def
        row_get_def dict_row_def)

lemma ex_column_two: "product_id_column ex_output_two = [Some ''a'', Some ''down'']"
  by (simp add: product_id_column_def ex_output_two_def fieldnames_def row_get_def dict_row_def)

lemma ex_main_resume:
  "main (ex_env [[''1'', ''a''], [''2'', ''down'']]) ex_output_one = (ex_output_two, None)"
  using ex_token [of "[[''1'', ''a''], [''2'', ''down'']]"]
  by (simp add: main_def ex_brand ex_read_two ex_load_one ex_loop_resume
        del: main_loop.simps)

text \<open>
  C1, as the claim states it, fails, in two ways. The input file that names the
  identifier \<^verbatim>\<open>a\<close> in two rows gets two rows for \<^verbatim>\<open>a\<close> in one run, the second when
  \<^verbatim>\<open>a\<close> already has a row in the output file: the resume set is computed once, before
  the loop, and the loop adds nothing to it. And an output file that exists and is
  empty gets a row for \<^verbatim>\<open>a\<close> without a header in a first run and a second row for
  \<^verbatim>\<open>a\<close> in the next: the first row is read as the header, the column
  \<^verbatim>\<open>product_id\<close> is not found, and the resume set is empty.
\<close>

theorem duplicate_input_counterexample:
  "read_product_source_ids (input_csv (ex_env [[''1'', ''a''], [''2'', ''a'']]))
     = Inr [''a'', ''a''] \<and>
   main (ex_env [[''1'', ''a''], [''2'', ''a'']]) None
     = (Some [fieldnames, [''a'', [], [], [], ''2'', ''u1; u2''],
              [''a'', [], [], [], ''2'', ''u1; u2'']], None) \<and>
   product_id_column (fst (main (ex_env [[''1'', ''a''], [''2'', ''a'']]) None))
     = [Some ''a'', Some ''a''] \<and>
   read_product_source_ids (input_csv (ex_env [[''1'', ''a'']])) = Inr [''a''] \<and>
   main (ex_env [[''1'', ''a'']]) (Some [])
     = (Some [[''a'', [], [], [], ''2'', ''u1; u2'']], None) \<and>
   main (ex_env [[''1'', ''a'']]) (Some [[''a'', [], [], [], ''2'', ''u1; u2'']])
     = (Some [[''a'', [], [], [], ''2'', ''u1; u2''],
              [''a'', [], [], [], ''2'', ''u1; u2'']], None)"
proof -
  have m: "main (ex_env [[''1'', ''a''], [''2'', ''a'']]) None
     = (Some [fieldnames, [''a'', [], [], [], ''2'', ''u1; u2''],
              [''a'', [], [], [], ''2'', ''u1; u2'']], None)"
    using ex_token [of "[[''1'', ''a''], [''2'', ''a'']]"]
    by (simp add: main_def ex_brand ex_read_twice load_already_processed_rows_def ex_loop_twice
          del: main_loop.simps)
  have c: "product_id_column (Some [fieldnames, [''a'', [], [], [], ''2'', ''u1; u2''],
              [''a'', [], [], [], ''2'', ''u1; u2'']]) = [Some ''a'', Some ''a'']"
    by (simp add: product_id_column_def fieldnames_def row_get_def dict_row_def)
  have e1: "main (ex_env [[''1'', ''a'']]) (Some [])
     = (Some [[''a'', [], [], [], ''2'', ''u1; u2'']], None)"
    using ex_token [of "[[''1'', ''a'']]"]
    by (simp add: main_def ex_brand ex_read_one ex_load_no_header ex_loop_no_header
          del: main_loop.simps)
  have e2: "main (ex_env [[''1'', ''a'']]) (Some [[''a'', [], [], [], ''2'', ''u1; u2'']])
     = (Some [[''a'', [], [], [], ''2'', ''u1; u2''],
              [''a'', [], [], [], ''2'', ''u1; u2'']], None)"
    using ex_token [of "[[''1'', ''a'']]"]
    by (simp add: main_def ex_brand ex_read_one ex_load_no_header ex_loop_no_header
          del: main_loop.simps)
  from m c ex_read_twice ex_read_one e1 e2 show ?thesis by simp
qed

text \<open>
  C1, amended. For an input file whose identifiers are pairwise distinct and an output
  path that holds nothing or a file starting with the report's header row, a run of the
  driver leaves such a file, appends no row for an identifier that already has a row
  in the output file, and leaves every identifier with at most one row if it had at
  most one before; a run that ends normally leaves every input identifier with a row.
\<close>

theorem resume_never_duplicates:
  assumes "written_file output"
    and "read_product_source_ids (input_csv env) = Inr ids"
    and "distinct ids"
    and "main env output = (output', result)"
  shows "written_file output' \<and>
         (\<forall>i. count_list (product_id_column output') i
                 \<le> max 1 (count_list (product_id_column output) i)) \<and>
         (\<forall>i\<in>set (product_id_column output).
            count_list (product_id_column output') i = count_list (product_id_column output) i) \<and>
         (result = None \<longrightarrow> (\<forall>i\<in>set ids. Some i \<in> set (product_id_column output')))"
proof -
  let ?P = "load_already_processed_rows output"
  let ?col = "product_id_column output"
  let ?new = "filter (\<lambda>i. Some i \<notin> ?P) ids"
  from main_cases [OF assms(4) assms(2)]
  consider (fatal) "output' = output" "result \<noteq> None"
    | (loop) b where "main_loop env b ?P ids output = (output', result)"
    by blast
  then show ?thesis
  proof cases
    case fatal
    with assms(1) show ?thesis by auto
  next
    case loop
    from main_loop_appends [OF assms(1) loop] obtain k where
      w: "written_file output'"
      and k: "product_id_column output' = ?col @ map Some (take k ?new)"
      and n: "result = None \<longrightarrow> product_id_column output' = ?col @ map Some ?new"
      by blast
    let ?app = "map Some (take k ?new)"
    have dis: "distinct ?app"
      using assms(3) by (simp add: distinct_map)
    have fresh: "x \<notin> set ?col" if "x \<in> set ?app" for x
    proof -
      from that obtain i where "x = Some i" and "i \<in> set (take k ?new)" by auto
      then have "i \<in> set ?new" by (auto dest: in_set_takeD)
      then have "Some i \<notin> ?P" by simp
      with \<open>x = Some i\<close> show ?thesis by (simp add: load_is_column)
    qed
    have cnt: "count_list (product_id_column output') i = count_list ?col i + count_list ?app i"
      for i
      by (simp add: k)
    have old: "count_list (product_id_column output') i = count_list ?col i"
      if "i \<in> set ?col" for i
    proof -
      from that fresh have "i \<notin> set ?app" by blast
      then have "count_list ?app i = 0" by (simp add: count_list_0_iff)
      with cnt show ?thesis by simp
    qed
    have le: "count_list (product_id_column output') i \<le> max 1 (count_list ?col i)" for i
    proof (cases "i \<in> set ?col")
      case True
      with old show ?thesis by simp
    next
      case False
      then have "count_list ?col i = 0" by (simp add: count_list_0_iff)
      moreover have "count_list ?app i \<le> 1" using dis by (rule count_list_distinct_le)
      ultimately show ?thesis using cnt by simp
    qed
    have every: "Some i \<in> set (product_id_column output')"
      if "result = None" and "i \<in> set ids" for i
    proof -
      from that n have e: "product_id_column output' = ?col @ map Some ?new" by simp
      show ?thesis
      proof (cases "Some i \<in> ?P")
        case True
        then show ?thesis by (simp add: e load_is_column)
      next
        case False
        with that have "i \<in> set ?new" by simp
        then show ?thesis unfolding e by auto
      qed
    qed
    from w le old every show ?thesis by blast
  qed
qed

theorem resume_never_duplicates_witness:
  "written_file ex_output_one \<and>
   read_product_source_ids (input_csv (ex_env [[''1'', ''a''], [''2'', ''down'']]))
     = Inr [''a'', ''down''] \<and>
   main (ex_env [[''1'', ''a''], [''2'', ''down'']]) ex_output_one = (ex_output_two, None) \<and>
   written_file ex_output_two \<and>
   product_id_column ex_output_two = [Some ''a'', Some ''down'']"
proof -
  have w: "written_file ex_output_one"
    by (simp add: written_file_def ex_output_one_def)
  have d: "distinct [''a'', ''down'']" by simp
  from resume_never_duplicates [OF w ex_read_two d ex_main_resume]
  have "written_file ex_output_two" by (rule conjunct1)
  with w ex_read_two ex_main_resume ex_column_two show ?thesis by (simp only: simp_thms)
qed

text \<open>
  C9. When every identifier of the input file is in the resume set computed from the
  output file, a run leaves the output file as it was; a run that gets past its startup
  checks skips every identifier and ends normally.
\<close>

theorem rerun_appends_nothing:
  assumes "read_product_source_ids (input_csv env) = Inr ids"
    and "\<forall>i\<in>set ids. Some i \<in> load_already_processed_rows output"
  shows "fst (main env output) = output \<and>
         (bearer_token env \<noteq> [] \<longrightarrow> bearer_token env \<noteq> ''YOUR_BEARER_TOKEN_HERE'' \<longrightarrow>
          (\<exists>b. get_brand_name (self_response env) BRAND_ID = Inr b) \<longrightarrow>
          main env output = (output, None))"
  using assms by (auto simp: main_def main_loop_all_skipped split: sum.splits)

theorem rerun_appends_nothing_witness:
  "read_product_source_ids (input_csv (ex_env [[''1'', ''a''], [''2'', ''down'']]))
     = Inr [''a'', ''down''] \<and>
   load_already_processed_rows ex_output_two = {Some ''a'', Some ''down''} \<and>
   main (ex_env [[''1'', ''a''], [''2'', ''down'']]) ex_output_two = (ex_output_two, None)"
proof -
  have a: "\<forall>i\<in>set [''a'', ''down'']. Some i \<in> load_already_processed_rows ex_output_two"
    by (simp add: ex_load_two)
  have b: "\<exists>b. get_brand_name (self_response (ex_env [[''1'', ''a''], [''2'', ''down'']]))
              BRAND_ID = Inr b"
    using ex_brand by blast
  from rerun_appends_nothing [OF ex_read_two a] ex_token b
  have "main (ex_env [[''1'', ''a''], [''2'', ''down'']]) ex_output_two = (ex_output_two, None)"
    by blast
  with ex_read_two ex_load_two show ?thesis by (simp only: simp_thms)
qed

end
